theory Spec2Isabelle
  imports Main "HOL-Library.AList"
begin

section \<open>JavaScript strings\<close>

text \<open>
  A JavaScript string is a sequence of UTF-16 code units. The model uses \<^typ>\<open>string\<close>, whose
  characters are read as the code units U+0000 to U+00FF (Latin-1): this range holds every
  character the source's patterns mention (the degree sign U+00B0 and the capitals
  U+00C1, U+00C9, U+00CD, U+00D3, U+00DA, U+00D1). \<open>cu\<close> is the code unit of a character.
\<close>

definition cu :: "char \<Rightarrow> nat" where
  "cu c = of_char c"

text \<open>The regular-expression classes \<open>\d\<close>, \<open>[A-Z]\<close>, \<open>[a-z]\<close>, \<open>[0-9A-Za-z]\<close>, \<open>\w\<close> and \<open>\s\<close>.
  In the modelled range, \<open>\s\<close> (and \<open>trim\<close>) covers TAB, LF, VT, FF, CR, SPACE and NBSP.\<close>

definition is_digit :: "char \<Rightarrow> bool" where
  "is_digit c = (48 \<le> cu c \<and> cu c \<le> 57)"

definition is_upper :: "char \<Rightarrow> bool" where
  "is_upper c = (65 \<le> cu c \<and> cu c \<le> 90)"

definition is_lower :: "char \<Rightarrow> bool" where
  "is_lower c = (97 \<le> cu c \<and> cu c \<le> 122)"

definition is_alnum :: "char \<Rightarrow> bool" where
  "is_alnum c = (is_digit c \<or> is_upper c \<or> is_lower c)"

definition is_word :: "char \<Rightarrow> bool" where
  "is_word c = (is_alnum c \<or> cu c = 95)"

definition is_space :: "char \<Rightarrow> bool" where
  "is_space c = (cu c = 9 \<or> cu c = 10 \<or> cu c = 11 \<or> cu c = 12 \<or> cu c = 13 \<or> cu c = 32 \<or> cu c = 160)"

text \<open>
  \<open>String.prototype.toUpperCase\<close>. In the modelled range the letters \<open>a\<close>-\<open>z\<close> and
  U+00E0-U+00FE (without the division sign U+00F7) have their capital 32 code units below,
  and the sharp s U+00DF becomes \<open>SS\<close>. The capitals of U+00B5 and U+00FF lie outside the
  range; both are left as they are (neither they nor their capitals occur in any pattern of
  the source). \<open>upper_char\<close> is also the canonicalisation the \<open>i\<close> flag of a regular
  expression compares characters under.
\<close>

definition is_latin1_lower :: "char \<Rightarrow> bool" where
  "is_latin1_lower c = (224 \<le> cu c \<and> cu c \<le> 254 \<and> cu c \<noteq> 247)"

definition upper_char :: "char \<Rightarrow> char" where
  "upper_char c = (if is_lower c \<or> is_latin1_lower c then char_of (cu c - 32) else c)"

definition upper_str :: "char \<Rightarrow> string" where
  "upper_str c = (if cu c = 223 then ''SS'' else [upper_char c])"

definition toUpperCase :: "string \<Rightarrow> string" where
  "toUpperCase s = concat (map upper_str s)"

definition trim :: "string \<Rightarrow> string" where
  "trim s = rev (dropWhile is_space (rev (dropWhile is_space s)))"

section \<open>Identity normaliser (\<open>utils/logic.ts\<close>)\<close>

text \<open>The document-type prefixes of \<open>/^(CC|TI|RC|CE|PA|PE|CN|MS)[-\s]*/i\<close>.\<close>

definition docPrefixes :: "string list" where
  "docPrefixes = [''CC'', ''TI'', ''RC'', ''CE'', ''PA'', ''PE'', ''CN'', ''MS'']"

text \<open>The string starts with one of the prefixes, compared case-insensitively.\<close>

definition has_doc_prefix_ci :: "string \<Rightarrow> bool" where
  "has_doc_prefix_ci s = (map upper_char (take 2 s) \<in> set docPrefixes)"

text \<open>\<open>x.replace(/^(CC|TI|RC|CE|PA|PE|CN|MS)[-\s]*/i, "")\<close>: one prefix and the dashes and
  white space that follow it are removed; the star is greedy and nothing follows it.\<close>

definition strip_doc_prefix :: "string \<Rightarrow> string" where
  "strip_doc_prefix x =
     (if has_doc_prefix_ci x then dropWhile (\<lambda>c. c = CHR ''-'' \<or> is_space c) (drop 2 x) else x)"

text \<open>\<open>normalizeId(v: string | null | undefined)\<close>; \<open>None\<close> stands for \<open>null\<close> and
  \<open>undefined\<close>.\<close>

definition normalizeId :: "string option \<Rightarrow> string" where
  "normalizeId v =
     (case v of
        None \<Rightarrow> ''''
      | Some s \<Rightarrow> toUpperCase (filter is_alnum (strip_doc_prefix (trim s))))"

section \<open>Age brackets (\<open>utils/logic.ts\<close>)\<close>

text \<open>
  A \<open>Date\<close> is read through \<open>getFullYear\<close>, \<open>getMonth\<close> (0 to 11) and \<open>getDate\<close> only, so a
  valid date is modelled by these three local calendar fields. What \<open>new Date(fn)\<close> makes of
  a string depends on the engine and on the time zone: it is the parameter \<open>parse\<close>, with
  \<open>None\<close> for an invalid date (\<open>getTime()\<close> is \<open>NaN\<close>). \<open>new Date()\<close>, the clock, is the
  parameter \<open>h\<close>.
\<close>

record Date =
  getFullYear :: int
  getMonth :: int
  getDate :: int

definition edadMeses :: "(string \<Rightarrow> Date option) \<Rightarrow> Date \<Rightarrow> string \<Rightarrow> int option" where
  "edadMeses parse h fn =
     (if fn = '''' then None
      else (case parse fn of
              None \<Rightarrow> None
            | Some f \<Rightarrow>
                Some ((getFullYear h - getFullYear f) * 12 + (getMonth h - getMonth f))))"

definition edadAnios :: "(string \<Rightarrow> Date option) \<Rightarrow> Date \<Rightarrow> string \<Rightarrow> int option" where
  "edadAnios parse h fn =
     (if fn = '''' then None
      else (case parse fn of
              None \<Rightarrow> None
            | Some f \<Rightarrow>
                (let e = getFullYear h - getFullYear f
                 in if getMonth h < getMonth f
                       \<or> (getMonth h = getMonth f \<and> getDate h < getDate f)
                    then Some (e - 1) else Some e)))"

text \<open>\<open>grupoEtarioDesdeFN\<close>; \<open>edadMeses\<close> and \<open>edadAnios\<close> each read the clock, hence \<open>hm\<close>
  and \<open>ha\<close>. The capital O with acute accent of the fourth label is U+00D3.\<close>

definition grupoEtarioDesdeFN ::
    "(string \<Rightarrow> Date option) \<Rightarrow> Date \<Rightarrow> Date \<Rightarrow> string \<Rightarrow> string" where
  "grupoEtarioDesdeFN parse hm ha fn =
     (if fn = '''' then ''''
      else (case (edadMeses parse hm fn, edadAnios parse ha fn) of
              (Some m, Some a) \<Rightarrow>
                if m \<le> 60 then ''PRIMERA INFANCIA (0m-5a)''
                else if a \<le> 11 then ''INFANCIA (6-11)''
                else if a \<le> 17 then ''ADOLESCENCIA (12-17)''
                else if a \<le> 28 then ''J'' @ [CHR 0xD3] @ ''VENES (18-28)''
                else if a \<le> 59 then ''ADULTEZ (29-59)''
                else ''VEJEZ (60+)''
            | _ \<Rightarrow> ''''))"

section \<open>Data model (\<open>types.ts\<close>) and application state\<close>

record RipsRecord =
  cups :: string
  paciente :: string
  tipo :: string
  nombre :: string
  fecha :: string

text \<open>\<open>UserRecord\<close> and \<open>MaestroCupItem\<close>; the fields \<open>id\<close>, \<open>nombre\<close>, \<open>cups\<close>, \<open>tipo\<close> carry a
  suffix because a record field is a constant of the theory.\<close>

record UserRecord =
  id_u :: string
  sexo :: string
  fnac :: string
  nombre_u :: string

record MaestroCupItem =
  cups_m :: string
  tipo_m :: string
  nombre_m :: string

text \<open>The \<open>message\<close> state is \<open>{type, text}\<close>; the texts are kept as constructors that carry
  the numbers the source interpolates.\<close>

datatype MessageType = success | error | info

datatype MessageText =
    SeleccioneArchivos
  | Procesado nat nat
  | ErrorFormato
  | CopiasExcedentes nat
  | LimpiezaMasiva nat
  | DatosRestaurados

text \<open>The React state the handlers read and set. A JavaScript \<open>Map\<close> is an association
  list in insertion order; \<open>Map.set\<close> is \<^const>\<open>AList.update\<close>, which replaces the value of a
  present key in place and appends an absent one.\<close>

record AppState =
  registros :: "RipsRecord list"
  usuariosMap :: "(string \<times> UserRecord) list"
  maestro :: "(string \<times> MaestroCupItem) list"
  isProcessing :: bool
  message :: "(MessageType \<times> MessageText) option"
  showDuplicates :: bool

section \<open>Duplicate management\<close>

text \<open>The key \<open>`${r.paciente}|${r.cups}|${r.fecha}`\<close>.\<close>

definition dupKey :: "RipsRecord \<Rightarrow> string" where
  "dupKey r = paciente r @ ''|'' @ cups r @ ''|'' @ fecha r"

text \<open>The callback of \<open>registros.filter\<close> in \<open>handleRemoveAllDuplicates\<close>, with the set
  \<open>seen\<close> and the counter \<open>removedCount\<close> it updates passed along.\<close>

fun filterDuplicates :: "string set \<Rightarrow> nat \<Rightarrow> RipsRecord list \<Rightarrow> RipsRecord list \<times> nat" where
  "filterDuplicates seen removedCount [] = ([], removedCount)"
| "filterDuplicates seen removedCount (r # rs) =
     (if dupKey r \<in> seen then filterDuplicates seen (removedCount + 1) rs
      else (case filterDuplicates (insert (dupKey r) seen) removedCount rs of
              (kept, n) \<Rightarrow> (r # kept, n)))"

text \<open>\<open>confirmed\<close> is the answer to the \<open>confirm\<close> dialog.\<close>

definition handleRemoveAllDuplicates :: "bool \<Rightarrow> AppState \<Rightarrow> AppState" where
  "handleRemoveAllDuplicates confirmed st =
     (if \<not> confirmed then st
      else (case filterDuplicates {} 0 (registros st) of
              (newRegistros, removedCount) \<Rightarrow>
                st\<lparr>registros := newRegistros,
                   message := Some (success, LimpiezaMasiva removedCount),
                   showDuplicates := False\<rparr>))"

text \<open>The triple (patient, service code, service date) of a record.\<close>

definition triple :: "RipsRecord \<Rightarrow> string \<times> string \<times> string" where
  "triple r = (paciente r, cups r, fecha r)"

section \<open>String methods and regular expressions of the ingestion\<close>

text \<open>\<open>s.startsWith(p)\<close> and \<open>s.includes(sub)\<close>.\<close>

definition startsWith :: "string \<Rightarrow> string \<Rightarrow> bool" where
  "startsWith s p = (take (length p) s = p)"

fun includes_str :: "string \<Rightarrow> string \<Rightarrow> bool" where
  "includes_str [] sub = (sub = [])"
| "includes_str (c # s) sub = (startsWith (c # s) sub \<or> includes_str s sub)"

text \<open>Putting a character in front of the first piece of a split.\<close>

fun cons_first :: "char \<Rightarrow> string list \<Rightarrow> string list" where
  "cons_first c [] = [[c]]"
| "cons_first c (p # ps) = (c # p) # ps"

text \<open>\<open>s.split(sep)\<close> for a one-character separator: always at least one piece.\<close>

fun split :: "char \<Rightarrow> string \<Rightarrow> string list" where
  "split sep [] = [[]]"
| "split sep (c # s) = (if c = sep then [] # split sep s else cons_first c (split sep s))"

text \<open>\<open>txt.split(/\r?\n/)\<close>: a line feed ends a piece, together with a carriage return
  right before it; a carriage return elsewhere is content.\<close>

fun splitLines :: "string \<Rightarrow> string list" where
  "splitLines [] = [[]]"
| "splitLines [c] = (if c = CHR 0x0A then [[], []] else [[c]])"
| "splitLines (c # d # s) =
     (if c = CHR 0x0A then [] # splitLines (d # s)
      else if c = CHR 0x0D \<and> d = CHR 0x0A then [] # splitLines s
      else cons_first c (splitLines (d # s)))"

text \<open>\<open>xs.join(sep)\<close>.\<close>

fun join :: "string \<Rightarrow> string list \<Rightarrow> string" where
  "join sep [] = ''''"
| "join sep [x] = x"
| "join sep (x # y # ys) = x @ sep @ join sep (y # ys)"

text \<open>\<open>parts.find(p => ...) || ""\<close>.\<close>

definition find_or_empty :: "(string \<Rightarrow> bool) \<Rightarrow> string list \<Rightarrow> string" where
  "find_or_empty P ps = (case List.find P ps of None \<Rightarrow> '''' | Some p \<Rightarrow> p)"

text \<open>\<open>x.replace(/[|]$/, '')\<close>: one pipe at the end is removed.\<close>

definition stripTrailingPipe :: "string \<Rightarrow> string" where
  "stripTrailingPipe x = (if x \<noteq> [] \<and> last x = CHR ''|'' then butlast x else x)"

text \<open>
  A pattern of fixed width, such as \<open>\d{4}-\d{2}-\d{2}\<close>, is written as a string in which
  \<open>d\<close> stands for \<open>\d\<close> and any other character for itself: \<open>dddd-dd-dd\<close>. \<open>shape p s\<close> holds
  when \<open>s\<close> matches \<open>p\<close> from its first to its last character.
\<close>

fun shape :: "string \<Rightarrow> string \<Rightarrow> bool" where
  "shape [] [] = True"
| "shape (p # ps) (c # cs) = ((if p = CHR ''d'' then is_digit c else c = p) \<and> shape ps cs)"
| "shape _ _ = False"

definition iso_at :: "string \<Rightarrow> bool" where
  "iso_at s = shape ''dddd-dd-dd'' (take 10 s)"

definition dmy_at :: "string \<Rightarrow> bool" where
  "dmy_at s = shape ''dd/dd/dddd'' (take 10 s)"

text \<open>
  A search without anchor tries the pattern at every position from the left and stops at
  the first success. \<open>m prev s\<close> is the attempt at one position, with \<open>s\<close> the rest of the
  input and \<open>prev\<close> the character before it (\<open>\b\<close> looks at it); it returns the matched text.
\<close>

fun find_match :: "(char option \<Rightarrow> string \<Rightarrow> string option) \<Rightarrow> char option \<Rightarrow> string \<Rightarrow> string option"
  where
  "find_match m prev [] = m prev []"
| "find_match m prev (c # s) =
     (case m prev (c # s) of
        Some r \<Rightarrow> Some r
      | None \<Rightarrow> find_match m (Some c) s)"

text \<open>\<open>\b\<close>: exactly one of the characters before and after the position is a word
  character; the start and the end of the input count as none.\<close>

definition word_boundary :: "char option \<Rightarrow> string \<Rightarrow> bool" where
  "word_boundary prev s =
     ((case prev of None \<Rightarrow> False | Some c \<Rightarrow> is_word c)
        \<noteq> (case s of [] \<Rightarrow> False | c # _ \<Rightarrow> is_word c))"

text \<open>\<open>/\d{4}-\d{2}-\d{2}|\d{2}\/\d{2}\/\d{4}/.test(l)\<close>.\<close>

definition hasDate_at :: "char option \<Rightarrow> string \<Rightarrow> string option" where
  "hasDate_at prev s = (if iso_at s \<or> dmy_at s then Some (take 10 s) else None)"

definition hasDate :: "string \<Rightarrow> bool" where
  "hasDate l = (find_match hasDate_at None l \<noteq> None)"

text \<open>\<open>/\b(M|F)\b/i.test(l)\<close>.\<close>

definition hasSex_at :: "char option \<Rightarrow> string \<Rightarrow> string option" where
  "hasSex_at prev s =
     (case s of
        [] \<Rightarrow> None
      | c # t \<Rightarrow>
          if word_boundary prev s \<and> (upper_char c = CHR ''M'' \<or> upper_char c = CHR ''F'')
             \<and> word_boundary (Some c) t
          then Some [c] else None)"

definition hasSex :: "string \<Rightarrow> bool" where
  "hasSex l = (find_match hasSex_at None l \<noteq> None)"

text \<open>\<open>parseDateFromLine\<close>: \<open>/\b(\d{4}-\d{2}-\d{2})\b|\b(\d{2}\/\d{2}\/\d{4})\b/\<close>; both
  alternatives are ten characters wide, and \<open>m[1] || m[2] || ""\<close> is the matched text.\<close>

definition date_at :: "char option \<Rightarrow> string \<Rightarrow> string option" where
  "date_at prev s =
     (if word_boundary prev s \<and> (iso_at s \<or> dmy_at s)
         \<and> word_boundary (Some (last (take 10 s))) (drop 10 s)
      then Some (take 10 s) else None)"

definition parseDateFromLine :: "string \<Rightarrow> string" where
  "parseDateFromLine l = (case find_match date_at None l of None \<Rightarrow> '''' | Some d \<Rightarrow> d)"

text \<open>\<open>/\b\d{6}\b/\<close>, the service code.\<close>

definition cups_at :: "char option \<Rightarrow> string \<Rightarrow> string option" where
  "cups_at prev s =
     (if word_boundary prev s \<and> shape ''dddddd'' (take 6 s)
         \<and> word_boundary (Some (last (take 6 s))) (drop 6 s)
      then Some (take 6 s) else None)"

text \<open>
  \<open>/\b(?:CC|TI|RC|CE|PA|PE|CN|MS)-?\d{4,15}\b|\b\d{6,15}\b/\<close>, the patient identifier
  (no \<open>i\<close> flag). A greedy \<open>\d{m,n}\<close> followed by \<open>\b\<close> succeeds only on the whole run of
  digits: after fewer digits the position lies between two digits, where \<open>\b\<close> fails. So
  the run must have between \<open>m\<close> and \<open>n\<close> digits and end at a boundary.
\<close>

definition digits_run :: "nat \<Rightarrow> nat \<Rightarrow> string \<Rightarrow> string option" where
  "digits_run lo hi s =
     (let ds = takeWhile is_digit s
      in if lo \<le> length ds \<and> length ds \<le> hi
            \<and> word_boundary (Some (last ds)) (drop (length ds) s)
         then Some ds else None)"

definition paciente_pref_at :: "char option \<Rightarrow> string \<Rightarrow> string option" where
  "paciente_pref_at prev s =
     (if word_boundary prev s \<and> take 2 s \<in> set docPrefixes
      then (let r = drop 2 s;
                dash = (if startsWith r ''-'' then ''-'' else '''')
            in (case digits_run 4 15 (drop (length dash) r) of
                  None \<Rightarrow> None
                | Some ds \<Rightarrow> Some (take 2 s @ dash @ ds)))
      else None)"

definition paciente_num_at :: "char option \<Rightarrow> string \<Rightarrow> string option" where
  "paciente_num_at prev s = (if word_boundary prev s then digits_run 6 15 s else None)"

definition paciente_at :: "char option \<Rightarrow> string \<Rightarrow> string option" where
  "paciente_at prev s =
     (case paciente_pref_at prev s of
        Some r \<Rightarrow> Some r
      | None \<Rightarrow> paciente_num_at prev s)"

text \<open>The tests on one field: \<open>/^\d+$/\<close>, \<open>/^(M|F)$/i\<close>, the two date patterns between
  \<open>^\<close> and \<open>$\<close>, and \<open>/[A-Za-z\<dots>]/\<close> with the six accented capitals U+00C1, U+00C9, U+00CD,
  U+00D3, U+00DA and U+00D1.\<close>

definition all_digits :: "string \<Rightarrow> bool" where
  "all_digits p = (p \<noteq> [] \<and> list_all is_digit p)"

definition is_sex :: "string \<Rightarrow> bool" where
  "is_sex p = (map upper_char p = ''M'' \<or> map upper_char p = ''F'')"

definition is_date_field :: "string \<Rightarrow> bool" where
  "is_date_field p = (shape ''dddd-dd-dd'' p \<or> shape ''dd/dd/dddd'' p)"

definition accented_capitals :: string where
  "accented_capitals = [CHR 0xC1, CHR 0xC9, CHR 0xCD, CHR 0xD3, CHR 0xDA, CHR 0xD1]"

definition has_letter :: "string \<Rightarrow> bool" where
  "has_letter p = list_ex (\<lambda>c. is_upper c \<or> is_lower c \<or> c \<in> set accented_capitals) p"

text \<open>
  \<open>/^(?:CC|TI|RC|CE|PA|PE|CN|MS)?-?\d{lo,20}$/i\<close>, with \<open>lo = 3\<close> in the current ingestion and
  \<open>lo = 4\<close> in \<open>src/App.tsx\<close>. Giving back an optional prefix or dash never helps: what
  follows would have to start with a digit.
\<close>

definition id_token :: "nat \<Rightarrow> string \<Rightarrow> bool" where
  "id_token lo p =
     (let r = (if has_doc_prefix_ci p then drop 2 p else p);
          ds = (if startsWith r ''-'' then tl r else r)
      in list_all is_digit ds \<and> lo \<le> length ds \<and> length ds \<le> 20)"

section \<open>Ingestion: \<open>processFiles\<close>\<close>

text \<open>
  The repository holds two versions of the application component. This section follows
  the \<open>processFiles\<close> of the larger one, which also holds the duplicate management and
  finds the section of a line by header words, by the file name and by the content of the
  line. The loop of \<open>src/App.tsx\<close> is modelled further below.
\<close>

text \<open>The variables of the loop over the lines: \<open>section\<close> (here \<open>sectionName\<close>),
  \<open>newRegistros\<close> and \<open>newUsuariosMap\<close>.\<close>

record LoopState =
  sectionName :: string
  newRegistros :: "RipsRecord list"
  newUsuariosMap :: "(string \<times> UserRecord) list"

text \<open>\<open>getSectionFromFilename\<close>.\<close>

definition getSectionFromFilename :: "string \<Rightarrow> string" where
  "getSectionFromFilename name =
     (let n = toUpperCase name
      in if startsWith n ''US'' then ''USUARIOS''
         else if startsWith n ''AC'' \<or> startsWith n ''AP'' \<or> startsWith n ''AM'' \<or> startsWith n ''AT''
         then ''SERVICIOS''
         else '''')"

text \<open>The two header tests on the upper-cased line; U+00B0 is the degree sign.\<close>

definition isUsuariosHeader :: "string \<Rightarrow> bool" where
  "isUsuariosHeader upperLine =
     (includes_str upperLine ''USUARIOS''
      \<and> (includes_str upperLine ''*'' \<or> includes_str upperLine [CHR 0xB0]
           \<or> includes_str upperLine ''-''))"

definition isServiciosHeader :: "string \<Rightarrow> bool" where
  "isServiciosHeader upperLine =
     (includes_str upperLine ''CONSULTAS'' \<or> includes_str upperLine ''PROCEDIMIENTOS''
      \<or> includes_str upperLine ''MEDICAMENTOS'' \<or> includes_str upperLine ''OTROS SERVICIOS'')"

text \<open>Separator detection: \<open>None\<close> is the \<open>continue\<close> of a line without separator.\<close>

definition splitParts :: "string \<Rightarrow> string list option" where
  "splitParts l =
     (if 3 \<le> length (filter (\<lambda>c. c = CHR '','') l)
      then Some (map (\<lambda>x. stripTrailingPipe (trim x)) (split CHR '','' l))
      else if CHR ''|'' \<in> set l then Some (map trim (split CHR ''|'' l))
      else None)"

text \<open>The roster branch. The four values it extracts from the fields of a line; \<open>lo\<close> is
  the least number of digits of an identifier token (see \<open>id_token\<close>).\<close>

definition idCandDe :: "string list \<Rightarrow> string" where
  "idCandDe parts =
     (let idCand = parts ! 1
      in if idCand = '''' \<or> \<not> all_digits idCand then find_or_empty (id_token 3) parts
         else idCand)"

definition sexoDe :: "string list \<Rightarrow> string" where
  "sexoDe parts = toUpperCase (find_or_empty is_sex parts)"

definition fnacDe :: "string list \<Rightarrow> string" where
  "fnacDe parts = find_or_empty is_date_field parts"

definition nombreDe :: "string list \<Rightarrow> string" where
  "nombreDe parts =
     join '' '' (take 4 (filter (\<lambda>p. has_letter p \<and> \<not> is_sex p \<and> \<not> all_digits p \<and> 2 < length p)
                             parts))"

text \<open>The merge into \<open>newUsuariosMap\<close>: \<open>a || b\<close> on strings is \<open>b\<close> when \<open>a\<close> is empty.\<close>

definition or_str :: "string \<Rightarrow> string \<Rightarrow> string" where
  "or_str a b = (if a = '''' then b else a)"

definition mergeUsuario ::
    "string \<Rightarrow> string \<Rightarrow> string \<Rightarrow> string \<Rightarrow> (string \<times> UserRecord) list
      \<Rightarrow> (string \<times> UserRecord) list" where
  "mergeUsuario i sx fn nm umap =
     (let prev = (case map_of umap i of
                    None \<Rightarrow> \<lparr>id_u = i, sexo = '''', fnac = '''', nombre_u = ''''\<rparr>
                  | Some u \<Rightarrow> u)
      in AList.update i
           \<lparr>id_u = i, sexo = or_str sx (sexo prev), fnac = or_str fn (fnac prev),
            nombre_u = or_str nm (nombre_u prev)\<rparr> umap)"

text \<open>\<open>parts\<close> has at least two fields here, so \<open>parts[1]\<close> is defined. A line whose identifier
  normalises to fewer than three characters is skipped.\<close>

definition procesarUsuarios ::
    "string list \<Rightarrow> (string \<times> UserRecord) list \<Rightarrow> (string \<times> UserRecord) list" where
  "procesarUsuarios parts umap =
     (let i = normalizeId (Some (idCandDe parts))
      in if i = '''' \<or> length i < 3 then umap
         else mergeUsuario i (sexoDe parts) (fnacDe parts) (nombreDe parts) umap)"

text \<open>The service branch: \<open>None\<close> when no record is pushed.\<close>

definition procesarServicios :: "(string \<times> MaestroCupItem) list \<Rightarrow> string \<Rightarrow> RipsRecord option" where
  "procesarServicios cupsMap l =
     (case find_match cups_at None l of
        None \<Rightarrow> None
      | Some c \<Rightarrow>
          (case map_of cupsMap c of
             None \<Rightarrow> None
           | Some entry \<Rightarrow>
               (let pacienteRaw = (case find_match paciente_at None l of
                                     Some m \<Rightarrow> m
                                   | None \<Rightarrow> ''SIN_ID'')
                in Some \<lparr>cups = c,
                         paciente = or_str (normalizeId (Some pacienteRaw)) ''SIN_ID'',
                         tipo = tipo_m entry,
                         nombre = nombre_m entry,
                         fecha = parseDateFromLine l\<rparr>)))"

text \<open>The body of \<open>for (const raw of lines)\<close>.\<close>

definition processLine :: "(string \<times> MaestroCupItem) list \<Rightarrow> LoopState \<Rightarrow> string \<Rightarrow> LoopState" where
  "processLine cupsMap st raw =
     (let l = trim raw
      in if l = '''' then st
         else if isUsuariosHeader (toUpperCase l) then st\<lparr>sectionName := ''USUARIOS''\<rparr>
         else if isServiciosHeader (toUpperCase l) then st\<lparr>sectionName := ''SERVICIOS''\<rparr>
         else (case splitParts l of
                 None \<Rightarrow> st
               | Some parts \<Rightarrow>
                   if length parts < 2 then st
                   else (let st1 = (if sectionName st \<noteq> ''USUARIOS'' \<and> hasDate l \<and> hasSex l
                                    then st\<lparr>sectionName := ''USUARIOS''\<rparr> else st)
                         in if includes_str (sectionName st1) ''USUARIOS''
                            then st1\<lparr>newUsuariosMap := procesarUsuarios parts (newUsuariosMap st1)\<rparr>
                            else (case procesarServicios cupsMap l of
                                    None \<Rightarrow> st1
                                  | Some r \<Rightarrow> st1\<lparr>newRegistros := newRegistros st1 @ [r]\<rparr>))))"


text \<open>One file: its name gives the first section, its lines are processed in order.\<close>

definition processText ::
    "(string \<times> MaestroCupItem) list \<Rightarrow> string \<Rightarrow> string \<Rightarrow> LoopState \<Rightarrow> LoopState" where
  "processText cupsMap name txt st =
     foldl (processLine cupsMap) (st\<lparr>sectionName := getSectionFromFilename name\<rparr>) (splitLines txt)"

text \<open>
  What can throw inside the \<open>try\<close> block is the reading: \<open>cupsFile.arrayBuffer()\<close>, \<open>read\<close>
  and \<open>sheet_to_json\<close> for the catalogue, \<open>file.text()\<close> for a RIPS file. A read is \<open>None\<close>
  when it throws. A catalogue row is given by the three cells the loader reads, each
  already a string (\<open>String(x[column] || "")\<close>).
\<close>

record CupsRow =
  cups_vigente :: string
  tipo_ser :: string
  nombre_cups :: string

record RipsFile =
  file_name :: string
  file_text :: "string option"

definition loadMaestro :: "CupsRow list \<Rightarrow> (string \<times> MaestroCupItem) list" where
  "loadMaestro rows =
     foldl (\<lambda>cupsMap x.
              (let c = trim (cups_vigente x)
               in if c = '''' then cupsMap
                  else AList.update c
                         \<lparr>cups_m = c, tipo_m = trim (tipo_ser x), nombre_m = trim (nombre_cups x)\<rparr>
                         cupsMap))
       [] rows"

text \<open>The loop over the files; \<open>None\<close> when a read throws, which leaves the loop.\<close>

fun processRips ::
    "(string \<times> MaestroCupItem) list \<Rightarrow> RipsFile list \<Rightarrow> LoopState \<Rightarrow> LoopState option" where
  "processRips cupsMap [] st = Some st"
| "processRips cupsMap (f # fs) st =
     (case file_text f of
        None \<Rightarrow> None
      | Some txt \<Rightarrow> processRips cupsMap fs (processText cupsMap (file_name f) txt st))"

text \<open>\<open>processFiles(ripsFiles, cupsFile)\<close>: an argument is \<open>None\<close> when it is \<open>null\<close>; the
  catalogue file is given by what reading it yields.\<close>

definition processFiles ::
    "RipsFile list option \<Rightarrow> CupsRow list option option \<Rightarrow> AppState \<Rightarrow> AppState" where
  "processFiles ripsFiles cupsFile st =
     (case (ripsFiles, cupsFile) of
        (Some (f # fs), Some cupsRead) \<Rightarrow>
          (let st1 = st\<lparr>isProcessing := True, message := None\<rparr>
           in (case cupsRead of
                 None \<Rightarrow> st1\<lparr>message := Some (error, ErrorFormato), isProcessing := False\<rparr>
               | Some rows \<Rightarrow>
                   (let cupsMap = loadMaestro rows;
                        st2 = st1\<lparr>maestro := cupsMap\<rparr>
                    in (case processRips cupsMap (f # fs)
                               \<lparr>sectionName = '''', newRegistros = [],
                                newUsuariosMap = usuariosMap st\<rparr> of
                          None \<Rightarrow> st2\<lparr>message := Some (error, ErrorFormato), isProcessing := False\<rparr>
                        | Some res \<Rightarrow>
                            st2\<lparr>registros := newRegistros res,
                                usuariosMap := newUsuariosMap res,
                                message := Some (success, Procesado (length (newRegistros res))
                                                   (length (newUsuariosMap res))),
                                isProcessing := False\<rparr>))))
      | _ \<Rightarrow> st\<lparr>message := Some (error, SeleccioneArchivos)\<rparr>)"

section \<open>The line loop of \<open>src/App.tsx\<close>\<close>

text \<open>
  \<open>src/App.tsx\<close> holds another \<open>processFiles\<close>, whose loop finds the section by the explicit
  marker \<open>rxSec = /\<degree>----\s*ARCHIVO-([A-Z\<dots>_ ]+)\s*----\<degree>\|/i\<close> (the class also lists the six
  accented capitals) and knows no other header. Its definitions carry the suffix \<open>_App\<close>.

  A character is in the class of the group, under the \<open>i\<close> flag, when its canonical form is
  that of a member. The group is greedy and takes the whole run of such characters: a
  shorter group would leave characters of the run to \<open>\s*\<close>, which takes blanks only, and
  then the whole run matches just as well. \<open>rxSec_at\<close> returns the text of the group.
\<close>

definition rxSec_class :: "char \<Rightarrow> bool" where
  "rxSec_class c =
     (is_upper (upper_char c) \<or> upper_char c \<in> set accented_capitals
      \<or> c = CHR ''_'' \<or> c = CHR '' '')"

definition rxSec_at :: "char option \<Rightarrow> string \<Rightarrow> string option" where
  "rxSec_at prev s =
     (if startsWith s (CHR 0xB0 # ''----'')
      then (let r1 = dropWhile is_space (drop 5 s)
            in if map upper_char (take 8 r1) = ''ARCHIVO-''
               then (let r2 = drop 8 r1;
                         name = takeWhile rxSec_class r2;
                         r3 = dropWhile is_space (drop (length name) r2)
                     in if name \<noteq> [] \<and> startsWith r3 (''----'' @ [CHR 0xB0] @ ''|'')
                        then Some name else None)
               else None)
      else None)"

text \<open>The roster branch of \<open>src/App.tsx\<close>: the identifier is the first token of at least
  four digits, or else the second field; a name field must not start with a digit.\<close>

definition idCandDe_App :: "string list \<Rightarrow> string" where
  "idCandDe_App parts = or_str (find_or_empty (id_token 4) parts) (parts ! 1)"

definition nombreDe_App :: "string list \<Rightarrow> string" where
  "nombreDe_App parts =
     join '' '' (take 4 (filter (\<lambda>p. has_letter p \<and> \<not> is_sex p \<and> \<not> (p \<noteq> [] \<and> is_digit (hd p)))
                             parts))"

definition procesarUsuarios_App ::
    "string list \<Rightarrow> (string \<times> UserRecord) list \<Rightarrow> (string \<times> UserRecord) list" where
  "procesarUsuarios_App parts umap =
     (let i = normalizeId (Some (idCandDe_App parts))
      in if i = '''' then umap
         else mergeUsuario i (sexoDe parts) (fnacDe parts) (nombreDe_App parts) umap)"

definition processLine_App ::
    "(string \<times> MaestroCupItem) list \<Rightarrow> LoopState \<Rightarrow> string \<Rightarrow> LoopState" where
  "processLine_App cupsMap st raw =
     (let l = trim raw
      in if l = '''' then st
         else (case find_match rxSec_at None l of
                 Some name \<Rightarrow> st\<lparr>sectionName := toUpperCase (trim name)\<rparr>
               | None \<Rightarrow>
                   if CHR ''|'' \<notin> set l then st
                   else (let parts = map trim (split CHR ''|'' l)
                         in if length parts < 2 then st
                            else if includes_str (sectionName st) ''USUARIOS''
                            then st\<lparr>newUsuariosMap := procesarUsuarios_App parts (newUsuariosMap st)\<rparr>
                            else (case procesarServicios cupsMap l of
                                    None \<Rightarrow> st
                                  | Some r \<Rightarrow> st\<lparr>newRegistros := newRegistros st @ [r]\<rparr>))))"

section \<open>Session restore and the removal of one duplicate\<close>






section \<open>Aggregation: the code ranking\<close>

text \<open>
  The counters of the aggregation are plain objects used as dictionaries. An object is
  modelled by the list of its own properties in the order of their creation; assigning to
  a property is \<^const>\<open>AList.update\<close>.

  A read \<open>obj[k]\<close> of such an object also finds what \<open>Object.prototype\<close> defines under \<open>k\<close>
  when the object has no own property \<open>k\<close>. \<open>objectPrototypeKeys\<close> lists these names (those
  of ECMAScript and of its annex B); each holds a function, and \<open>__proto__\<close> holds
  \<open>Object.prototype\<close> itself, so each is truthy and none is a \<open>Set\<close>.
\<close>

definition objectPrototypeKeys :: "string list" where
  "objectPrototypeKeys =
     [''constructor'', ''hasOwnProperty'', ''isPrototypeOf'', ''propertyIsEnumerable'',
      ''toLocaleString'', ''toString'', ''valueOf'', ''__proto__'', ''__defineGetter__'',
      ''__defineSetter__'', ''__lookupGetter__'', ''__lookupSetter__'']"

text \<open>
  \<open>Object.entries\<close> does not enumerate in creation order. The own keys that are array
  indices (the canonical decimal form of an integer below \<open>2^32 - 1\<close>: digits without a
  leading zero, or \<open>0\<close> itself) come first, in ascending numeric order, and the other keys
  follow in the order of their creation.
\<close>

definition index_value :: "string \<Rightarrow> nat" where
  "index_value k = foldl (\<lambda>n c. 10 * n + (cu c - 48)) 0 k"

definition is_array_index :: "string \<Rightarrow> bool" where
  "is_array_index k =
     (k \<noteq> [] \<and> list_all is_digit k \<and> (k = ''0'' \<or> hd k \<noteq> CHR ''0'')
      \<and> index_value k < 4294967295)"

definition objectEntries :: "(string \<times> 'v) list \<Rightarrow> (string \<times> 'v) list" where
  "objectEntries obj =
     sort_key (\<lambda>e. index_value (fst e)) (filter (\<lambda>e. is_array_index (fst e)) obj)
     @ filter (\<lambda>e. \<not> is_array_index (fst e)) obj"

text \<open>\<open>xs.sort((a, b) => f(b) - f(a))\<close>: descending by \<open>f\<close>; \<open>Array.prototype.sort\<close> is stable,
  as the insertion sort \<^const>\<open>sort_key\<close> is.\<close>

definition sortDesc :: "('a \<Rightarrow> nat) \<Rightarrow> 'a list \<Rightarrow> 'a list" where
  "sortDesc f xs = sort_key (\<lambda>x. - int (f x)) xs"

text \<open>\<open>Array.from(datesSet).sort()\<close>: the default order of strings compares them code unit
  by code unit, a proper prefix first. A \<open>Set\<close> of strings is the list of its members in
  the order of their insertion.\<close>

fun str_le :: "string \<Rightarrow> string \<Rightarrow> bool" where
  "str_le [] t = True"
| "str_le (c # s) [] = False"
| "str_le (c # s) (d # t) = (cu c < cu d \<or> (c = d \<and> str_le s t))"

fun insertStr :: "string \<Rightarrow> string list \<Rightarrow> string list" where
  "insertStr x [] = [x]"
| "insertStr x (y # ys) = (if str_le x y then x # y # ys else y # insertStr x ys)"

definition sortStr :: "string list \<Rightarrow> string list" where
  "sortStr xs = foldr insertStr xs []"

definition setAdd :: "string \<Rightarrow> string list \<Rightarrow> string list" where
  "setAdd x xs = (if x \<in> set xs then xs else xs @ [x])"

record ServiceTypeMeta =
  type_meta :: string
  monthlyGoal :: nat
  active :: bool

text \<open>The value \<open>{count, name, type}\<close> of \<open>cupsCount\<close>.\<close>

record CupsCountItem =
  count_c :: nat
  name_c :: string
  type_c :: string

text \<open>The three counters the code ranking reads: \<open>cupsCount\<close>, \<open>cupsPacCount\<close> and
  \<open>cupsPacDates\<close>.\<close>

record Tracking =
  cupsCount :: "(string \<times> CupsCountItem) list"
  cupsPacCount :: "(string \<times> (string \<times> nat) list) list"
  cupsPacDates :: "(string \<times> (string \<times> string list) list) list"

text \<open>Steps 3 and 4 of the callback of \<open>filteredRegistros.forEach\<close>, for a record whose
  \<open>cups\<close> and \<open>paciente\<close> are no names of \<open>Object.prototype\<close>: every read finds an own
  property or \<open>undefined\<close>.\<close>

definition trackStep :: "Tracking \<Rightarrow> RipsRecord \<Rightarrow> Tracking" where
  "trackStep t r =
     (let item = (case map_of (cupsCount t) (cups r) of
                    None \<Rightarrow> \<lparr>count_c = 0, name_c = nombre r, type_c = tipo r\<rparr>
                  | Some i \<Rightarrow> i);
          pacs = (case map_of (cupsPacCount t) (cups r) of None \<Rightarrow> [] | Some p \<Rightarrow> p);
          n = (case map_of pacs (paciente r) of None \<Rightarrow> 0 | Some n \<Rightarrow> n);
          pds = (case map_of (cupsPacDates t) (cups r) of None \<Rightarrow> [] | Some p \<Rightarrow> p);
          ds = (case map_of pds (paciente r) of None \<Rightarrow> [] | Some d \<Rightarrow> d)
      in \<lparr>cupsCount = AList.update (cups r) (item\<lparr>count_c := count_c item + 1\<rparr>) (cupsCount t),
          cupsPacCount = AList.update (cups r) (AList.update (paciente r) (n + 1) pacs)
                           (cupsPacCount t),
          cupsPacDates = AList.update (cups r) (AList.update (paciente r) (setAdd (fecha r) ds) pds)
                           (cupsPacDates t)\<rparr>)"

text \<open>
  The callback on any record; \<open>None\<close> when it throws a \<open>TypeError\<close>, which ends the whole
  computation of the rankings. \<open>Object.prototype\<close> is as the language defines it when the
  computation starts. The callback throws for a name of \<open>Object.prototype\<close>
  \<^item> as \<open>cups\<close>: \<open>cupsPacCount[r.cups]\<close> and \<open>cupsPacDates[r.cups]\<close> are then one inherited
    object \<open>X\<close>, and nothing is initialised. The read of \<open>X[r.paciente]\<close> throws for a poisoned
    accessor, and the assignment of the sub-count to it throws when the property is
    read-only (module code is strict). Otherwise \<open>X[r.paciente]\<close> is afterwards a number, a string or, for the patient
    \<open>__proto__\<close>, the prototype of \<open>X\<close>: when this is \<open>null\<close> (\<open>X\<close> is \<open>Object.prototype\<close>) the
    assignment of the new \<open>Set\<close> as the prototype of \<open>Object.prototype\<close> throws, and in the
    other cases the value is truthy and has no method \<open>add\<close>, whose call throws;
  \<^item> as \<open>paciente\<close>, the \<open>cups\<close> being no such name: \<open>cupsPacDates[r.cups][r.paciente]\<close> is
    the inherited function (or \<open>Object.prototype\<close>), which is truthy and has no method
    \<open>add\<close>, whose call throws.
\<close>

definition trackRecord :: "Tracking \<Rightarrow> RipsRecord \<Rightarrow> Tracking option" where
  "trackRecord t r =
     (if cups r \<in> set objectPrototypeKeys \<or> paciente r \<in> set objectPrototypeKeys then None
      else Some (trackStep t r))"

text \<open>\<open>filteredRegistros.forEach(r => ...)\<close>: the records in order, up to the first throw.\<close>

fun forEachTrack :: "Tracking \<Rightarrow> RipsRecord list \<Rightarrow> Tracking option" where
  "forEachTrack t [] = Some t"
| "forEachTrack t (r # rs) =
     (case trackRecord t r of
        None \<Rightarrow> None
      | Some t' \<Rightarrow> forEachTrack t' rs)"

text \<open>A row of the ranking, without the age and the age bracket of the top patient,
  which take no part in the order of the rows or in the choice of the top patient.\<close>

record RankingCupsItem =
  CUPS :: string
  Nombre :: string
  TipoSer :: string
  Cantidad :: nat
  PacienteTop :: string
  PacienteTop_Cant :: nat
  PacienteTop_Nombre :: string
  PacienteTop_Sexo :: string
  PacienteTop_Fechas :: string

definition filteredRegistros :: "ServiceTypeMeta list \<Rightarrow> RipsRecord list \<Rightarrow> RipsRecord list" where
  "filteredRegistros metas rs =
     filter (\<lambda>r. tipo r \<in> set (map type_meta (filter active metas))) rs"

text \<open>\<open>Object.entries(pacs).sort((a,b) => b[1] - a[1])[0]\<close>, with \<open>("", 0)\<close> for none.\<close>

definition topPacEntry :: "(string \<times> nat) list \<Rightarrow> string \<times> nat" where
  "topPacEntry pacs =
     (case sortDesc snd (objectEntries pacs) of
        [] \<Rightarrow> ('''', 0)
      | e # _ \<Rightarrow> e)"

text \<open>\<open>cupsPacCount[code] || {}\<close> and \<open>cupsPacDates[code]?.[topPid] || new Set()\<close>, for the
  own keys \<open>Object.entries\<close> gives.\<close>

definition pacsOf :: "Tracking \<Rightarrow> string \<Rightarrow> (string \<times> nat) list" where
  "pacsOf t c = (case map_of (cupsPacCount t) c of None \<Rightarrow> [] | Some p \<Rightarrow> p)"

definition datesOf :: "Tracking \<Rightarrow> string \<Rightarrow> string \<Rightarrow> string list" where
  "datesOf t c p =
     (case map_of (cupsPacDates t) c of
        None \<Rightarrow> []
      | Some pds \<Rightarrow> (case map_of pds p of None \<Rightarrow> [] | Some ds \<Rightarrow> ds))"

definition rankingRow ::
    "(string \<times> UserRecord) list \<Rightarrow> Tracking \<Rightarrow> string \<times> CupsCountItem \<Rightarrow> RankingCupsItem" where
  "rankingRow umap t e =
     (let top = topPacEntry (pacsOf t (fst e));
          user = map_of umap (fst top)
      in \<lparr>CUPS = fst e,
          Nombre = name_c (snd e),
          TipoSer = type_c (snd e),
          Cantidad = count_c (snd e),
          PacienteTop = fst top,
          PacienteTop_Cant = snd top,
          PacienteTop_Nombre = (case user of None \<Rightarrow> '''' | Some u \<Rightarrow> nombre_u u),
          PacienteTop_Sexo = (case user of None \<Rightarrow> '''' | Some u \<Rightarrow> sexo u),
          PacienteTop_Fechas = join '', '' (sortStr (datesOf t (fst e) (fst top)))\<rparr>)"

text \<open>\<open>Object.entries(cupsCount).map(...).sort((a, b) => b.Cantidad - a.Cantidad)\<close>.\<close>

definition rankingRows :: "(string \<times> UserRecord) list \<Rightarrow> Tracking \<Rightarrow> RankingCupsItem list" where
  "rankingRows umap t = sortDesc Cantidad (map (rankingRow umap t) (objectEntries (cupsCount t)))"

text \<open>The ranking of the \<open>useMemo\<close> callback: \<open>None\<close> when the callback throws.\<close>

definition rankingCUPS ::
    "ServiceTypeMeta list \<Rightarrow> (string \<times> UserRecord) list \<Rightarrow> RipsRecord list
      \<Rightarrow> RankingCupsItem list option"
  where
  "rankingCUPS metas umap rs =
     (case forEachTrack \<lparr>cupsCount = [], cupsPacCount = [], cupsPacDates = []\<rparr>
             (filteredRegistros metas rs) of
        None \<Rightarrow> None
      | Some t \<Rightarrow> Some (rankingRows umap t))"

text \<open>
  The words of the claims about the ranking. \<open>firstSeen\<close> lists the values of a sequence
  in the order in which each is first encountered. \<open>ownKeysOrder\<close> is the order in which
  the keys of an object are enumerated, given their order of creation. \<open>ownTrack\<close> is the
  state of the counters after records that all take the step on own keys.
\<close>

definition firstSeen :: "'a list \<Rightarrow> 'a list" where
  "firstSeen xs = rev (remdups (rev xs))"

definition ownKeysOrder :: "string list \<Rightarrow> string list" where
  "ownKeysOrder ks = sort_key index_value (filter is_array_index ks) @ filter (\<lambda>k. \<not> is_array_index k) ks"

definition ownTrack :: "RipsRecord list \<Rightarrow> Tracking" where
  "ownTrack rs = foldl trackStep \<lparr>cupsCount = [], cupsPacCount = [], cupsPacDates = []\<rparr> rs"

section \<open>Facts about characters and strings\<close>

lemma cu_char_of: "n < 256 \<Longrightarrow> cu (char_of n) = n"
  by (simp add: cu_def)

lemma alnum_not_space: "is_alnum c \<Longrightarrow> \<not> is_space c"
  by (auto simp: is_alnum_def is_digit_def is_upper_def is_lower_def is_space_def)

lemma alnum_not_dash: "is_alnum c \<Longrightarrow> c \<noteq> CHR ''-''"
  by (auto simp: is_alnum_def is_digit_def is_upper_def is_lower_def cu_def)

lemma upper_str_alnum: "is_alnum c \<Longrightarrow> upper_str c = [upper_char c]"
  by (auto simp: upper_str_def is_alnum_def is_digit_def is_upper_def is_lower_def)

lemma upper_char_alnum:
  assumes "is_alnum c"
  shows "is_digit (upper_char c) \<or> is_upper (upper_char c)"
proof (cases "is_lower c")
  case True
  then have "cu c - 32 < 256"
    unfolding is_lower_def by arith
  with True have "cu (upper_char c) = cu c - 32"
    by (simp add: upper_char_def cu_char_of)
  with True have "is_upper (upper_char c)"
    unfolding is_upper_def is_lower_def by arith
  then show ?thesis ..
next
  case False
  with assms have "\<not> is_latin1_lower c"
    by (auto simp: is_alnum_def is_digit_def is_upper_def is_latin1_lower_def)
  with False assms show ?thesis
    by (simp add: upper_char_def is_alnum_def)
qed

lemma upper_char_fixed: "is_digit c \<or> is_upper c \<Longrightarrow> upper_char c = c"
  by (auto simp: upper_char_def is_digit_def is_upper_def is_lower_def is_latin1_lower_def)

lemma toUpperCase_alnum: "\<forall>c\<in>set s. is_alnum c \<Longrightarrow> toUpperCase s = map upper_char s"
  by (induction s) (simp_all add: toUpperCase_def upper_str_alnum)

lemma toUpperCase_fixed: "\<forall>c\<in>set s. is_digit c \<or> is_upper c \<Longrightarrow> toUpperCase s = s"
proof -
  assume a: "\<forall>c\<in>set s. is_digit c \<or> is_upper c"
  then have "\<forall>c\<in>set s. is_alnum c"
    by (auto simp: is_alnum_def)
  then have "toUpperCase s = map upper_char s"
    by (rule toUpperCase_alnum)
  also have "\<dots> = s"
    using a by (induction s) (simp_all add: upper_char_fixed)
  finally show ?thesis .
qed

lemma trim_no_space: "\<forall>c\<in>set s. \<not> is_space c \<Longrightarrow> trim s = s"
proof -
  assume a: "\<forall>c\<in>set s. \<not> is_space c"
  have d: "dropWhile is_space t = t" if "\<forall>c\<in>set t. \<not> is_space c" for t
    using that by (cases t) simp_all
  from a have "dropWhile is_space (rev s) = rev s"
    by (intro d) simp
  with a show ?thesis
    by (simp add: trim_def d)
qed

text \<open>The result of \<open>normalizeId\<close> holds digits and capital letters only.\<close>

lemma normalizeId_chars: "c \<in> set (normalizeId v) \<Longrightarrow> is_digit c \<or> is_upper c"
proof (cases v)
  case None
  assume "c \<in> set (normalizeId v)"
  with None show ?thesis by (simp add: normalizeId_def)
next
  case (Some s)
  assume c: "c \<in> set (normalizeId v)"
  let ?f = "filter is_alnum (strip_doc_prefix (trim s))"
  have "toUpperCase ?f = map upper_char ?f"
    by (rule toUpperCase_alnum) simp
  with c Some obtain d where "is_alnum d" "c = upper_char d"
    by (auto simp: normalizeId_def)
  then show ?thesis
    by (simp add: upper_char_alnum)
qed

text \<open>On a string of digits and capitals, \<open>normalizeId\<close> only removes a leading prefix.\<close>

lemma normalizeId_on_normal:
  assumes "\<forall>c\<in>set y. is_digit c \<or> is_upper c"
  shows "normalizeId (Some y) = (if has_doc_prefix_ci y then drop 2 y else y)"
proof -
  from assms have al: "\<forall>c\<in>set y. is_alnum c"
    by (auto simp: is_alnum_def)
  then have t: "trim y = y"
    by (intro trim_no_space) (auto dest: alnum_not_space)
  have "\<forall>c\<in>set (drop 2 y). \<not> (c = CHR ''-'' \<or> is_space c)"
    using al by (auto dest: in_set_dropD alnum_not_space alnum_not_dash)
  then have "dropWhile (\<lambda>c. c = CHR ''-'' \<or> is_space c) (drop 2 y) = drop 2 y"
    by (cases "drop 2 y") simp_all
  then have s: "strip_doc_prefix y = (if has_doc_prefix_ci y then drop 2 y else y)"
    by (simp add: strip_doc_prefix_def)
  have "\<forall>c\<in>set (strip_doc_prefix y). is_digit c \<or> is_upper c"
    using assms by (auto simp: s dest: in_set_dropD)
  moreover from this have "filter is_alnum (strip_doc_prefix y) = strip_doc_prefix y"
    unfolding filter_id_conv is_alnum_def by blast
  ultimately have "toUpperCase (filter is_alnum (strip_doc_prefix y)) = strip_doc_prefix y"
    by (simp add: toUpperCase_fixed)
  with t s show ?thesis
    by (simp add: normalizeId_def)
qed

lemma has_doc_prefix_ci_length: "has_doc_prefix_ci y \<Longrightarrow> 2 \<le> length y"
proof -
  assume "has_doc_prefix_ci y"
  moreover have "\<forall>p\<in>set docPrefixes. length p = 2"
    by (simp add: docPrefixes_def)
  ultimately have "length (map upper_char (take 2 y)) = 2"
    unfolding has_doc_prefix_ci_def by blast
  then show ?thesis by simp
qed

section \<open>Claims about the identity normaliser\<close>

text \<open>
  C1, as stated: \<open>normalizeId\<close> is idempotent. It is not: the pattern removes one prefix only,
  so \<open>CCCC123\<close> becomes \<open>CC123\<close>, which a second call turns into \<open>123\<close>.
\<close>

theorem normalizeId_not_idempotent:
  "normalizeId (Some (normalizeId (Some ''CCCC123''))) \<noteq> normalizeId (Some ''CCCC123'')"
  by code_simp

text \<open>
  C1, amended: a second application of \<open>normalizeId\<close> changes nothing exactly when the
  first result does not begin with one of the document-type prefixes
  CC, TI, RC, CE, PA, PE, CN, MS; the results for \<open>cc-123.456\<close> and \<open>123456\<close> are both
  \<open>123456\<close>.
\<close>

theorem normalizeId_idempotent_iff:
  "(normalizeId (Some (normalizeId v)) = normalizeId v \<longleftrightarrow> \<not> has_doc_prefix_ci (normalizeId v))
   \<and> normalizeId (Some ''cc-123.456'') = ''123456''
   \<and> normalizeId (Some ''123456'') = ''123456''"
proof -
  let ?y = "normalizeId v"
  have n: "normalizeId (Some ?y) = (if has_doc_prefix_ci ?y then drop 2 ?y else ?y)"
    by (rule normalizeId_on_normal) (auto dest: normalizeId_chars)
  have "drop 2 ?y \<noteq> ?y" if "has_doc_prefix_ci ?y"
  proof
    assume "drop 2 ?y = ?y"
    then have "length (drop 2 ?y) = length ?y" by simp
    with has_doc_prefix_ci_length [OF that] show False by simp
  qed
  with n have "normalizeId (Some ?y) = ?y \<longleftrightarrow> \<not> has_doc_prefix_ci ?y"
    by auto
  moreover have "normalizeId (Some ''cc-123.456'') = ''123456''"
    by code_simp
  moreover have "normalizeId (Some ''123456'') = ''123456''"
    by code_simp
  ultimately show ?thesis by blast
qed

theorem normalizeId_idempotent_iff_witness:
  "\<not> has_doc_prefix_ci (normalizeId (Some ''ti 98.765-4''))
   \<and> normalizeId (Some (normalizeId (Some ''ti 98.765-4''))) = ''987654''"
proof -
  have a: "normalizeId (Some ''ti 98.765-4'') = ''987654''"
    by code_simp
  have b: "\<not> has_doc_prefix_ci ''987654''"
    by code_simp
  from normalizeId_idempotent_iff [of "Some ''ti 98.765-4''"] a b show ?thesis
    by simp
qed

section \<open>Claims about the age bracket\<close>

text \<open>
  C7: for an empty or unparsable birth date the bracket is the empty string. For a
  parsable one, with \<open>m\<close> the month difference taken from years and months alone and \<open>a\<close>
  the year difference lowered by one when the current month and day precede the birth
  month and day, the bracket is \<open>PRIMERA INFANCIA (0m-5a)\<close> exactly when \<open>m \<le> 60\<close>, and
  otherwise it is fixed by \<open>a\<close> through the thresholds 11, 17, 28 and 59.
\<close>

theorem grupoEtario_brackets:
  fixes parse :: "string \<Rightarrow> Date option" and hm ha :: Date and fn :: string
  defines "g \<equiv> grupoEtarioDesdeFN parse hm ha fn"
  shows "(fn = '''' \<or> parse fn = None \<longrightarrow> g = '''')
    \<and> (\<forall>f m a. fn \<noteq> '''' \<and> parse fn = Some f
          \<and> m = (getFullYear hm - getFullYear f) * 12 + (getMonth hm - getMonth f)
          \<and> a = (if getMonth ha < getMonth f \<or> (getMonth ha = getMonth f \<and> getDate ha < getDate f)
                 then getFullYear ha - getFullYear f - 1 else getFullYear ha - getFullYear f)
        \<longrightarrow> (g = ''PRIMERA INFANCIA (0m-5a)'' \<longleftrightarrow> m \<le> 60)
          \<and> (60 < m \<longrightarrow>
                g = (if a \<le> 11 then ''INFANCIA (6-11)''
                     else if a \<le> 17 then ''ADOLESCENCIA (12-17)''
                     else if a \<le> 28 then ''J'' @ [CHR 0xD3] @ ''VENES (18-28)''
                     else if a \<le> 59 then ''ADULTEZ (29-59)''
                     else ''VEJEZ (60+)'')))"
  by (auto simp: g_def grupoEtarioDesdeFN_def edadMeses_def edadAnios_def Let_def)

text \<open>The boundary on 2 November 2026: a child born on 15 November 2021 is 60 months old
  by the coarse count and in the first bracket; one born on 15 October 2021 is 61 months
  and 5 years old and in the second.\<close>

theorem grupoEtario_brackets_witness:
  "grupoEtarioDesdeFN
     (\<lambda>s. if s = ''2021-11-15'' then Some \<lparr>getFullYear = 2021, getMonth = 10, getDate = 15\<rparr>
          else if s = ''2021-10-15'' then Some \<lparr>getFullYear = 2021, getMonth = 9, getDate = 15\<rparr>
          else None)
     \<lparr>getFullYear = 2026, getMonth = 10, getDate = 2\<rparr>
     \<lparr>getFullYear = 2026, getMonth = 10, getDate = 2\<rparr> ''2021-10-15'' = ''INFANCIA (6-11)''
   \<and> grupoEtarioDesdeFN
     (\<lambda>s. if s = ''2021-11-15'' then Some \<lparr>getFullYear = 2021, getMonth = 10, getDate = 15\<rparr>
          else if s = ''2021-10-15'' then Some \<lparr>getFullYear = 2021, getMonth = 9, getDate = 15\<rparr>
          else None)
     \<lparr>getFullYear = 2026, getMonth = 10, getDate = 2\<rparr>
     \<lparr>getFullYear = 2026, getMonth = 10, getDate = 2\<rparr> ''2021-11-15'' = ''PRIMERA INFANCIA (0m-5a)''
   \<and> grupoEtarioDesdeFN
     (\<lambda>s. if s = ''2021-11-15'' then Some \<lparr>getFullYear = 2021, getMonth = 10, getDate = 15\<rparr>
          else if s = ''2021-10-15'' then Some \<lparr>getFullYear = 2021, getMonth = 9, getDate = 15\<rparr>
          else None)
     \<lparr>getFullYear = 2026, getMonth = 10, getDate = 2\<rparr>
     \<lparr>getFullYear = 2026, getMonth = 10, getDate = 2\<rparr> ''sin fecha'' = ''''"
proof -
  let ?p = "\<lambda>s. if s = ''2021-11-15'' then Some \<lparr>getFullYear = 2021, getMonth = 10, getDate = 15\<rparr>
          else if s = ''2021-10-15'' then Some \<lparr>getFullYear = 2021, getMonth = 9, getDate = 15\<rparr>
          else None"
  let ?h = "\<lparr>getFullYear = 2026, getMonth = 10, getDate = 2\<rparr>"
  from grupoEtario_brackets [of "''2021-10-15''" ?p ?h ?h]
  have a: "grupoEtarioDesdeFN ?p ?h ?h ''2021-10-15'' = ''INFANCIA (6-11)''"
    by simp
  from grupoEtario_brackets [of "''2021-11-15''" ?p ?h ?h]
  have b: "grupoEtarioDesdeFN ?p ?h ?h ''2021-11-15'' = ''PRIMERA INFANCIA (0m-5a)''"
    by simp
  from grupoEtario_brackets [of "''sin fecha''" ?p ?h ?h]
  have c: "grupoEtarioDesdeFN ?p ?h ?h ''sin fecha'' = ''''"
    by simp
  from a b c show ?thesis by simp
qed

section \<open>Facts about the service branch\<close>

lemma digit_alnum: "is_digit c \<Longrightarrow> is_alnum c"
  by (simp add: is_alnum_def)

lemma digit_word: "is_digit c \<Longrightarrow> is_word c"
  by (simp add: is_word_def is_alnum_def)

lemma digit_not_upper: "is_digit c \<Longrightarrow> \<not> is_upper c"
  by (auto simp: is_digit_def is_upper_def)

lemma docPrefixes_upper: "q \<in> set docPrefixes \<Longrightarrow> length q = 2 \<and> (\<forall>c\<in>set q. is_upper c)"
  by (auto simp: docPrefixes_def is_upper_def cu_def)

lemma find_match_result:
  "find_match m prev s = Some r \<Longrightarrow> \<exists>p t. m p t = Some r"
proof (induction s arbitrary: prev)
  case Nil
  then show ?case by auto
next
  case (Cons c s)
  then show ?case
    by (cases "m prev (c # s)") auto
qed

lemma find_match_mono:
  assumes "\<And>p t. m1 p t \<noteq> None \<Longrightarrow> m2 p t \<noteq> None"
  shows "find_match m1 prev s \<noteq> None \<Longrightarrow> find_match m2 prev s \<noteq> None"
proof (induction s arbitrary: prev)
  case Nil
  with assms show ?case by simp
next
  case (Cons c s)
  show ?case
  proof (cases "m1 prev (c # s)")
    case None
    with Cons show ?thesis
      by (cases "m2 prev (c # s)") auto
  next
    case (Some a)
    then have "m2 prev (c # s) \<noteq> None"
      by (intro assms) simp
    then show ?thesis by auto
  qed
qed

lemma shape_digits:
  "shape (replicate n CHR ''d'') u \<longleftrightarrow> length u = n \<and> list_all is_digit u"
proof (induction n arbitrary: u)
  case 0
  show ?case by (cases u) simp_all
next
  case (Suc n)
  show ?case by (cases u) (auto simp: Suc.IH)
qed

lemma shape6: "shape ''dddddd'' u \<longleftrightarrow> length u = 6 \<and> list_all is_digit u"
proof -
  have "''dddddd'' = replicate 6 CHR ''d''"
    by (simp add: numeral_eq_Suc)
  then show ?thesis
    by (simp only: shape_digits)
qed

lemma word_boundary_after_digit:
  "is_digit d \<Longrightarrow> word_boundary (Some d) t \<Longrightarrow> takeWhile is_digit t = []"
  by (cases t) (auto simp: word_boundary_def digit_word)

lemma cups_at_paciente_at:
  assumes "cups_at p t \<noteq> None"
  shows "paciente_at p t \<noteq> None"
proof -
  from assms have wb: "word_boundary p t"
    and sh: "shape ''dddddd'' (take 6 t)"
    and we: "word_boundary (Some (last (take 6 t))) (drop 6 t)"
    by (auto simp: cups_at_def split: if_splits)
  from sh have len: "length (take 6 t) = 6" and dig: "list_all is_digit (take 6 t)"
    by (simp_all only: shape6)
  from len have ne: "take 6 t \<noteq> []" by auto
  with dig have "is_digit (last (take 6 t))"
    by (simp add: list_all_iff)
  from this we have "takeWhile is_digit (drop 6 t) = []"
    by (rule word_boundary_after_digit)
  moreover have "takeWhile is_digit (take 6 t @ drop 6 t) = take 6 t @ takeWhile is_digit (drop 6 t)"
    using dig by (intro takeWhile_append2) (simp add: list_all_iff)
  ultimately have tw: "takeWhile is_digit t = take 6 t"
    by simp
  with len we have "digits_run 6 15 t = Some (take 6 t)"
    by (simp add: digits_run_def)
  with wb have "paciente_num_at p t \<noteq> None"
    by (simp add: paciente_num_at_def)
  then show ?thesis
    by (cases "paciente_pref_at p t") (simp_all add: paciente_at_def)
qed


lemma digits_run_digits:
  "digits_run lo hi s = Some ds \<Longrightarrow> lo \<le> length ds \<and> list_all is_digit ds"
proof -
  assume "digits_run lo hi s = Some ds"
  then have "ds = takeWhile is_digit s" "lo \<le> length ds"
    by (auto simp: digits_run_def Let_def split: if_splits)
  moreover have "list_all is_digit (takeWhile is_digit s)"
    by (auto simp: list_all_iff dest: set_takeWhileD)
  ultimately show ?thesis by simp
qed

text \<open>The text a match of the patient pattern returns: digits, after nothing, after a
  prefix, or after a prefix and a dash.\<close>

lemma paciente_at_form:
  assumes "paciente_at p t = Some r"
  shows "\<exists>q dash ds. r = q @ dash @ ds \<and> (q = [] \<and> dash = [] \<or> q \<in> set docPrefixes)
           \<and> (dash = [] \<or> dash = ''-'') \<and> 4 \<le> length ds \<and> list_all is_digit ds"
proof (cases "paciente_pref_at p t")
  case None
  with assms have "digits_run 6 15 t = Some r"
    by (auto simp: paciente_at_def paciente_num_at_def split: if_splits)
  then have "6 \<le> length r \<and> list_all is_digit r"
    by (rule digits_run_digits)
  then have "r = [] @ [] @ r \<and> 4 \<le> length r \<and> list_all is_digit r"
    by simp
  then show ?thesis by blast
next
  case (Some a)
  with assms have ar: "a = r"
    by (simp add: paciente_at_def)
  let ?dash = "if startsWith (drop 2 t) ''-'' then ''-'' else ''''"
  from Some ar obtain ds where q: "take 2 t \<in> set docPrefixes"
    and d: "digits_run 4 15 (drop (length ?dash) (drop 2 t)) = Some ds"
    and r: "r = take 2 t @ ?dash @ ds"
    by (auto simp: paciente_pref_at_def Let_def split: if_splits option.splits)
  from d have "4 \<le> length ds \<and> list_all is_digit ds"
    by (rule digits_run_digits)
  with q r have "r = take 2 t @ ?dash @ ds \<and> take 2 t \<in> set docPrefixes
      \<and> (?dash = [] \<or> ?dash = ''-'') \<and> 4 \<le> length ds \<and> list_all is_digit ds"
    by simp
  then show ?thesis by blast
qed

lemma digits_no_doc_prefix:
  assumes "ds \<noteq> []" "list_all is_digit ds"
  shows "\<not> has_doc_prefix_ci ds"
proof
  assume "has_doc_prefix_ci ds"
  then obtain q where q: "q \<in> set docPrefixes" "map upper_char (take 2 ds) = q"
    by (auto simp: has_doc_prefix_ci_def)
  from assms obtain d ds' where ds: "ds = d # ds'" "is_digit d"
    by (cases ds) auto
  then have "upper_char d = d"
    by (simp add: upper_char_fixed)
  with q ds have "d \<in> set q"
    by (auto simp: numeral_2_eq_2)
  with q(1) have "is_upper d"
    by (auto dest: docPrefixes_upper)
  with ds(2) show False
    by (simp add: digit_not_upper)
qed

lemma normalizeId_digits:
  assumes "ds \<noteq> []" "list_all is_digit ds"
  shows "normalizeId (Some ds) = ds"
proof -
  from assms(2) have "\<forall>c\<in>set ds. is_digit c \<or> is_upper c"
    by (simp add: list_all_iff)
  then have "normalizeId (Some ds) = (if has_doc_prefix_ci ds then drop 2 ds else ds)"
    by (rule normalizeId_on_normal)
  with digits_no_doc_prefix [OF assms] show ?thesis by simp
qed

lemma normalizeId_prefixed:
  assumes q: "q \<in> set docPrefixes" and dash: "dash = [] \<or> dash = ''-''"
    and ne: "ds \<noteq> []" and dig: "list_all is_digit ds"
  shows "normalizeId (Some (q @ dash @ ds)) = ds"
proof -
  let ?r = "q @ dash @ ds"
  from q have lq: "length q = 2" and uq: "\<forall>c\<in>set q. is_upper c"
    by (auto dest: docPrefixes_upper)
  have "\<forall>c\<in>set ?r. \<not> is_space c"
  proof
    fix c assume "c \<in> set ?r"
    with dash have "c \<in> set q \<or> c = CHR ''-'' \<or> c \<in> set ds"
      by auto
    moreover have "\<not> is_space CHR ''-''"
      by (simp add: is_space_def cu_def)
    moreover have "is_alnum c" if "c \<in> set q"
      using that uq by (simp add: is_alnum_def)
    moreover have "is_alnum c" if "c \<in> set ds"
      using that dig by (simp add: list_all_iff digit_alnum)
    ultimately show "\<not> is_space c"
      by (auto dest: alnum_not_space)
  qed
  then have t: "trim ?r = ?r"
    by (rule trim_no_space)
  from uq have "map upper_char q = q"
    by (induction q) (simp_all add: upper_char_fixed)
  with q lq have p: "has_doc_prefix_ci ?r"
    by (simp add: has_doc_prefix_ci_def)
  from ne dig obtain d ds' where ds: "ds = d # ds'" "is_digit d"
    by (cases ds) auto
  then have "d \<noteq> CHR ''-''" "\<not> is_space d"
    by (auto dest: digit_alnum alnum_not_dash alnum_not_space)
  with ds dash have "dropWhile (\<lambda>c. c = CHR ''-'' \<or> is_space c) (dash @ ds) = ds"
    by (auto simp: is_space_def cu_def)
  with p lq have s: "strip_doc_prefix ?r = ds"
    by (simp add: strip_doc_prefix_def)
  from dig have f: "filter is_alnum ds = ds"
    by (simp add: filter_id_conv list_all_iff digit_alnum)
  from dig have "toUpperCase ds = ds"
    by (intro toUpperCase_fixed) (simp add: list_all_iff)
  with t s f show ?thesis
    by (simp add: normalizeId_def)
qed

lemma normalizeId_paciente_at:
  assumes "paciente_at p t = Some r"
  shows "normalizeId (Some r) \<noteq> [] \<and> list_all is_digit (normalizeId (Some r))"
proof -
  from paciente_at_form [OF assms] obtain q dash ds where r: "r = q @ dash @ ds"
    and c: "q = [] \<and> dash = [] \<or> q \<in> set docPrefixes" and d: "dash = [] \<or> dash = ''-''"
    and l: "4 \<le> length ds" and g: "list_all is_digit ds"
    by blast
  from l have ne: "ds \<noteq> []" by auto
  from c have "normalizeId (Some r) = ds"
  proof
    assume "q = [] \<and> dash = []"
    with r ne g show ?thesis by (simp add: normalizeId_digits)
  next
    assume "q \<in> set docPrefixes"
    from normalizeId_prefixed [OF this d ne g] r show ?thesis by simp
  qed
  with ne g show ?thesis by simp
qed

lemma servicios_paciente:
  assumes "procesarServicios cupsMap l = Some r"
  shows "paciente r \<noteq> ''SIN_ID''
    \<and> (\<exists>m. find_match paciente_at None l = Some m
          \<and> normalizeId (Some m) \<noteq> '''' \<and> paciente r = normalizeId (Some m))
    \<and> list_all is_digit (paciente r)"
proof -
  from assms obtain c where c: "find_match cups_at None l = Some c"
    by (auto simp: procesarServicios_def split: option.splits)
  then have "find_match cups_at None l \<noteq> None" by simp
  then have "find_match paciente_at None l \<noteq> None"
    by (rule find_match_mono [rotated]) (rule cups_at_paciente_at)
  then obtain m where m: "find_match paciente_at None l = Some m"
    by auto
  then obtain p t where "paciente_at p t = Some m"
    by (auto dest: find_match_result)
  then have n: "normalizeId (Some m) \<noteq> [] \<and> list_all is_digit (normalizeId (Some m))"
    by (rule normalizeId_paciente_at)
  from assms c m have pr: "paciente r = or_str (normalizeId (Some m)) ''SIN_ID''"
    by (auto simp: procesarServicios_def Let_def split: option.splits)
  with n have e: "paciente r = normalizeId (Some m)"
    by (simp add: or_str_def)
  have "\<not> list_all is_digit ''SIN_ID''"
    by (simp add: is_digit_def cu_def)
  with e n m show ?thesis by auto
qed

text \<open>The fields of a record the service branch pushes hold no separator \<open>|\<close>: the code
  and the patient are strings of digits.\<close>

lemma servicios_no_pipe:
  assumes "procesarServicios cupsMap l = Some r"
  shows "CHR ''|'' \<notin> set (paciente r) \<and> CHR ''|'' \<notin> set (cups r)"
proof -
  have np: "CHR ''|'' \<notin> set ds" if "list_all is_digit ds" for ds
  proof
    assume "CHR ''|'' \<in> set ds"
    with that have "is_digit CHR ''|''"
      by (simp add: list_all_iff)
    then show False
      by (simp add: is_digit_def cu_def)
  qed
  from assms obtain c where c: "find_match cups_at None l = Some c" and rc: "cups r = c"
    by (auto simp: procesarServicios_def Let_def split: option.splits)
  from c obtain p t where "cups_at p t = Some c"
    by (auto dest: find_match_result)
  then have "shape ''dddddd'' c"
    by (auto simp: cups_at_def split: if_splits)
  then have "list_all is_digit c"
    by (simp only: shape6)
  with rc have "CHR ''|'' \<notin> set (cups r)"
    by (simp add: np)
  moreover from servicios_paciente [OF assms] have "CHR ''|'' \<notin> set (paciente r)"
    by (simp add: np)
  ultimately show ?thesis by simp
qed

text \<open>
  C9: the placeholder \<open>SIN_ID\<close> is never emitted. Whenever the service branch pushes a
  record for a line, the patient pattern matches in that line (the service code found is
  itself a match of its second alternative), the match normalises to a non-empty string
  of digits, and this string, not \<open>SIN_ID\<close>, is the patient of the record. A line of the
  loop therefore leaves the records as they are or appends one such record.
\<close>

theorem servicios_never_SIN_ID:
  "(\<forall>r. procesarServicios cupsMap l = Some r \<longrightarrow>
        paciente r \<noteq> ''SIN_ID''
        \<and> (\<exists>m. find_match paciente_at None l = Some m
              \<and> normalizeId (Some m) \<noteq> '''' \<and> paciente r = normalizeId (Some m)))
   \<and> (newRegistros (processLine cupsMap st raw) = newRegistros st
       \<or> (\<exists>r. newRegistros (processLine cupsMap st raw) = newRegistros st @ [r]
              \<and> paciente r \<noteq> ''SIN_ID''))"
proof -
  have a: "paciente r \<noteq> ''SIN_ID''
        \<and> (\<exists>m. find_match paciente_at None l = Some m
              \<and> normalizeId (Some m) \<noteq> '''' \<and> paciente r = normalizeId (Some m))"
    if "procesarServicios cupsMap l = Some r" for r l
    using servicios_paciente [OF that] by blast
  have "newRegistros (processLine cupsMap st raw) = newRegistros st
       \<or> (\<exists>r. procesarServicios cupsMap (trim raw) = Some r
              \<and> newRegistros (processLine cupsMap st raw) = newRegistros st @ [r])"
    by (auto simp: processLine_def Let_def split: option.splits)
  with a show ?thesis by blast
qed

theorem servicios_never_SIN_ID_witness:
  "procesarServicios
     [(''890201'', \<lparr>cups_m = ''890201'', tipo_m = ''CONSULTA'', nombre_m = ''CONSULTA GENERAL''\<rparr>)]
     ''X|890201|2024-01-05''
   = Some \<lparr>cups = ''890201'', paciente = ''890201'', tipo = ''CONSULTA'',
           nombre = ''CONSULTA GENERAL'', fecha = ''2024-01-05''\<rparr>
   \<and> find_match paciente_at None ''X|890201|2024-01-05'' = Some ''890201''"
proof -
  let ?c = "[(''890201'', \<lparr>cups_m = ''890201'', tipo_m = ''CONSULTA'', nombre_m = ''CONSULTA GENERAL''\<rparr>)]"
  let ?r = "\<lparr>cups = ''890201'', paciente = ''890201'', tipo = ''CONSULTA'',
           nombre = ''CONSULTA GENERAL'', fecha = ''2024-01-05''\<rparr>"
  have e: "procesarServicios ?c ''X|890201|2024-01-05'' = Some ?r"
    by code_simp
  have f: "find_match paciente_at None ''X|890201|2024-01-05'' = Some ''890201''"
    by code_simp
  from servicios_never_SIN_ID [of ?c "''X|890201|2024-01-05''"] e
  have "paciente ?r \<noteq> ''SIN_ID''"
    by blast
  with e f show ?thesis by simp
qed

section \<open>Facts about duplicate removal\<close>

lemma filterDuplicates_kept:
  "fst (filterDuplicates seen n rs) =
     map (\<lambda>i. rs ! i) (filter (\<lambda>i. dupKey (rs ! i) \<notin> seen \<union> dupKey ` set (take i rs)) [0..<length rs])"
proof (induction rs arbitrary: seen n)
  case Nil
  show ?case by simp
next
  case (Cons r rs)
  have upt: "[0..<length (r # rs)] = 0 # map Suc [0..<length rs]"
    by (simp add: upt_conv_Cons map_Suc_upt del: upt_Suc)
  show ?case
  proof (cases "dupKey r \<in> seen")
    case True
    then have e: "(k \<notin> seen \<and> k \<noteq> dupKey r \<and> Q) = (k \<notin> seen \<and> Q)" for k Q
      by auto
    from True show ?thesis
      unfolding upt by (simp add: Cons.IH filter_map comp_def e)
  next
    case False
    then show ?thesis
      unfolding upt by (simp add: Cons.IH filter_map comp_def split_beta conj_commute conj_left_commute)
  qed
qed

lemma filterDuplicates_count:
  "length (fst (filterDuplicates seen n rs)) + snd (filterDuplicates seen n rs) = length rs + n"
  by (induction rs arbitrary: seen n) (simp_all add: split_beta)


lemma filterDuplicates_keys:
  "distinct (map dupKey (fst (filterDuplicates seen n rs))) \<and>
   dupKey ` set (fst (filterDuplicates seen n rs)) \<inter> seen = {}"
proof (induction rs arbitrary: seen n)
  case Nil
  show ?case by simp
next
  case (Cons r rs)
  show ?case
  proof (cases "dupKey r \<in> seen")
    case True
    with Cons.IH [of seen "n + 1"] show ?thesis by simp
  next
    case False
    with Cons.IH [of "insert (dupKey r) seen" n] show ?thesis
      by (auto simp: split_beta)
  qed
qed

lemma filterDuplicates_distinct_id:
  "distinct (map dupKey ks) \<Longrightarrow> dupKey ` set ks \<inter> seen = {} \<Longrightarrow>
   filterDuplicates seen n ks = (ks, n)"
  by (induction ks arbitrary: seen) auto



lemma sep_unique:
  "c \<notin> set a \<Longrightarrow> c \<notin> set a' \<Longrightarrow> a @ c # b = a' @ c # b' \<Longrightarrow> a = a' \<and> b = b'"
proof (induction a arbitrary: a')
  case Nil
  then show ?case by (cases a') auto
next
  case (Cons x a)
  then show ?case by (cases a') auto
qed

lemma dupKey_eq_iff:
  assumes "CHR ''|'' \<notin> set (paciente r)" "CHR ''|'' \<notin> set (cups r)"
    and "CHR ''|'' \<notin> set (paciente r')" "CHR ''|'' \<notin> set (cups r')"
  shows "dupKey r = dupKey r' \<longleftrightarrow> triple r = triple r'"
proof
  assume "dupKey r = dupKey r'"
  then have e: "paciente r @ CHR ''|'' # (cups r @ CHR ''|'' # fecha r)
      = paciente r' @ CHR ''|'' # (cups r' @ CHR ''|'' # fecha r')"
    by (simp add: dupKey_def)
  from sep_unique [OF assms(1) assms(3) e]
  have p: "paciente r = paciente r'"
    and e2: "cups r @ CHR ''|'' # fecha r = cups r' @ CHR ''|'' # fecha r'"
    by simp_all
  from sep_unique [OF assms(2) assms(4) e2] p show "triple r = triple r'"
    by (simp add: triple_def)
next
  assume "triple r = triple r'"
  then show "dupKey r = dupKey r'"
    by (simp add: triple_def dupKey_def)
qed

lemma distinct_triple_of_keys:
  assumes d: "distinct (map dupKey ks)"
  shows "distinct (map triple ks)"
proof -
  have e: "map dupKey ks = map (\<lambda>(p, c, d). p @ ''|'' @ c @ ''|'' @ d) (map triple ks)"
    by (simp add: dupKey_def triple_def)
  have "distinct (map (\<lambda>(p, c, d). p @ ''|'' @ c @ ''|'' @ d) (map triple ks))"
    unfolding e [symmetric] by (rule d)
  then show ?thesis
    unfolding distinct_map [of _ "map triple ks"] by (rule conjunct1)
qed

lemma handleRemoveAllDuplicates_registros:
  "registros (handleRemoveAllDuplicates True st) = fst (filterDuplicates {} 0 (registros st))"
  by (simp add: handleRemoveAllDuplicates_def split_beta)

lemma handleRemoveAllDuplicates_message:
  "message (handleRemoveAllDuplicates True st)
     = Some (success, LimpiezaMasiva (snd (filterDuplicates {} 0 (registros st))))"
  by (simp add: handleRemoveAllDuplicates_def split_beta)

lemma removeAll_first_occurrences:
  fixes st :: AppState
  defines "rs \<equiv> registros st"
  defines "st' \<equiv> handleRemoveAllDuplicates True st"
  assumes nopipe: "\<forall>r\<in>set (registros st). CHR ''|'' \<notin> set (paciente r) \<and> CHR ''|'' \<notin> set (cups r)"
  shows "registros st' =
           map (\<lambda>i. rs ! i) (filter (\<lambda>i. triple (rs ! i) \<notin> triple ` set (take i rs)) [0..<length rs])
         \<and> message st' = Some (success, LimpiezaMasiva (length rs - length (registros st')))"
proof -
  have r: "registros st' = fst (filterDuplicates {} 0 rs)"
    and m: "message st' = Some (success, LimpiezaMasiva (snd (filterDuplicates {} 0 rs)))"
    by (simp_all add: st'_def rs_def handleRemoveAllDuplicates_registros
        handleRemoveAllDuplicates_message)
  have "(dupKey (rs ! i) \<notin> dupKey ` set (take i rs)) = (triple (rs ! i) \<notin> triple ` set (take i rs))"
    if "i < length rs" for i
  proof -
    from that have a: "rs ! i \<in> set rs" by simp
    have "dupKey (rs ! i) = dupKey x \<longleftrightarrow> triple (rs ! i) = triple x" if "x \<in> set (take i rs)" for x
    proof -
      from that have "x \<in> set rs" by (rule in_set_takeD)
      with a nopipe show ?thesis
        by (intro dupKey_eq_iff) (simp_all add: rs_def)
    qed
    then show ?thesis by (auto simp: image_iff)
  qed
  then have "filter (\<lambda>i. dupKey (rs ! i) \<notin> {} \<union> dupKey ` set (take i rs)) [0..<length rs]
      = filter (\<lambda>i. triple (rs ! i) \<notin> triple ` set (take i rs)) [0..<length rs]"
    by (intro filter_cong) simp_all
  with r have "registros st' =
      map (\<lambda>i. rs ! i) (filter (\<lambda>i. triple (rs ! i) \<notin> triple ` set (take i rs)) [0..<length rs])"
    by (simp only: filterDuplicates_kept)
  moreover from filterDuplicates_count [of "{}" 0 rs] r
  have "snd (filterDuplicates {} 0 rs) = length rs - length (registros st')"
    by simp
  ultimately show ?thesis using m by simp
qed

section \<open>Claims about duplicate removal\<close>

text \<open>
  Where the joined key and the triple agree: when no patient identifier and no service
  code of the list contains the character \<open>|\<close>, the confirmed operation keeps exactly the
  records whose triple does not occur earlier in the list, in their order, and reports
  the number of records dropped. Every record the service branch of the ingestion
  pushes is of this kind. For the record A (patient 1, code 100001, date 2024-01-01)
  twice and B (patient 1, code 100001, date 2024-01-02) once, in any order, one A and one
  B remain and 1 is reported.
\<close>

theorem removeAll_keeps_first_occurrences:
  assumes "\<forall>r\<in>set (registros st). CHR ''|'' \<notin> set (paciente r) \<and> CHR ''|'' \<notin> set (cups r)"
  shows "registros (handleRemoveAllDuplicates True st) =
           map (\<lambda>i. registros st ! i)
             (filter (\<lambda>i. triple (registros st ! i) \<notin> triple ` set (take i (registros st)))
                [0..<length (registros st)])
         \<and> message (handleRemoveAllDuplicates True st) =
             Some (success, LimpiezaMasiva
               (length (registros st) - length (registros (handleRemoveAllDuplicates True st))))
         \<and> (\<forall>a b. a = \<lparr>cups = ''100001'', paciente = ''1'', tipo = t, nombre = n, fecha = ''2024-01-01''\<rparr>
              \<and> b = \<lparr>cups = ''100001'', paciente = ''1'', tipo = t, nombre = n, fecha = ''2024-01-02''\<rparr>
              \<longrightarrow> registros (handleRemoveAllDuplicates True (s\<lparr>registros := [a, a, b]\<rparr>)) = [a, b]
                \<and> registros (handleRemoveAllDuplicates True (s\<lparr>registros := [a, b, a]\<rparr>)) = [a, b]
                \<and> registros (handleRemoveAllDuplicates True (s\<lparr>registros := [b, a, a]\<rparr>)) = [b, a]
                \<and> message (handleRemoveAllDuplicates True (s\<lparr>registros := [a, a, b]\<rparr>))
                    = Some (success, LimpiezaMasiva 1)
                \<and> message (handleRemoveAllDuplicates True (s\<lparr>registros := [a, b, a]\<rparr>))
                    = Some (success, LimpiezaMasiva 1)
                \<and> message (handleRemoveAllDuplicates True (s\<lparr>registros := [b, a, a]\<rparr>))
                    = Some (success, LimpiezaMasiva 1))
         \<and> (\<forall>cupsMap l r. procesarServicios cupsMap l = Some r \<longrightarrow>
               CHR ''|'' \<notin> set (paciente r) \<and> CHR ''|'' \<notin> set (cups r))"
proof -
  note removeAll_first_occurrences [OF assms]
  moreover have "\<forall>a b. a = \<lparr>cups = ''100001'', paciente = ''1'', tipo = t, nombre = n, fecha = ''2024-01-01''\<rparr>
              \<and> b = \<lparr>cups = ''100001'', paciente = ''1'', tipo = t, nombre = n, fecha = ''2024-01-02''\<rparr>
              \<longrightarrow> registros (handleRemoveAllDuplicates True (s\<lparr>registros := [a, a, b]\<rparr>)) = [a, b]
                \<and> registros (handleRemoveAllDuplicates True (s\<lparr>registros := [a, b, a]\<rparr>)) = [a, b]
                \<and> registros (handleRemoveAllDuplicates True (s\<lparr>registros := [b, a, a]\<rparr>)) = [b, a]
                \<and> message (handleRemoveAllDuplicates True (s\<lparr>registros := [a, a, b]\<rparr>))
                    = Some (success, LimpiezaMasiva 1)
                \<and> message (handleRemoveAllDuplicates True (s\<lparr>registros := [a, b, a]\<rparr>))
                    = Some (success, LimpiezaMasiva 1)
                \<and> message (handleRemoveAllDuplicates True (s\<lparr>registros := [b, a, a]\<rparr>))
                    = Some (success, LimpiezaMasiva 1)"
    by (simp add: handleRemoveAllDuplicates_registros handleRemoveAllDuplicates_message dupKey_def)
  moreover have "\<forall>cupsMap l r. procesarServicios cupsMap l = Some r \<longrightarrow>
               CHR ''|'' \<notin> set (paciente r) \<and> CHR ''|'' \<notin> set (cups r)"
    by (blast dest: servicios_no_pipe)
  ultimately show ?thesis by simp
qed

theorem removeAll_keeps_first_occurrences_witness:
  "message (handleRemoveAllDuplicates True
        \<lparr>registros =
           [\<lparr>cups = ''100001'', paciente = ''1'', tipo = ''T'', nombre = ''N'', fecha = ''2024-01-01''\<rparr>,
            \<lparr>cups = ''100001'', paciente = ''1'', tipo = ''T'', nombre = ''N'', fecha = ''2024-01-01''\<rparr>,
            \<lparr>cups = ''100001'', paciente = ''1'', tipo = ''T'', nombre = ''N'', fecha = ''2024-01-02''\<rparr>],
         usuariosMap = [], maestro = [], isProcessing = False, message = None,
         showDuplicates = True\<rparr>)
      = Some (success, LimpiezaMasiva 1)"
proof -
  let ?st = "\<lparr>registros =
           [\<lparr>cups = ''100001'', paciente = ''1'', tipo = ''T'', nombre = ''N'', fecha = ''2024-01-01''\<rparr>,
            \<lparr>cups = ''100001'', paciente = ''1'', tipo = ''T'', nombre = ''N'', fecha = ''2024-01-01''\<rparr>,
            \<lparr>cups = ''100001'', paciente = ''1'', tipo = ''T'', nombre = ''N'', fecha = ''2024-01-02''\<rparr>],
         usuariosMap = [], maestro = [], isProcessing = False, message = None,
         showDuplicates = True\<rparr>"
  have h: "\<forall>r\<in>set (registros ?st). CHR ''|'' \<notin> set (paciente r) \<and> CHR ''|'' \<notin> set (cups r)"
    by simp
  have r: "registros (handleRemoveAllDuplicates True ?st) =
      [\<lparr>cups = ''100001'', paciente = ''1'', tipo = ''T'', nombre = ''N'', fecha = ''2024-01-01''\<rparr>,
       \<lparr>cups = ''100001'', paciente = ''1'', tipo = ''T'', nombre = ''N'', fecha = ''2024-01-02''\<rparr>]"
    by (simp add: handleRemoveAllDuplicates_registros dupKey_def)
  from removeAll_keeps_first_occurrences [OF h]
  have "message (handleRemoveAllDuplicates True ?st) =
      Some (success, LimpiezaMasiva
        (length (registros ?st) - length (registros (handleRemoveAllDuplicates True ?st))))"
    by (rule conjunct1 [OF conjunct2])
  with r show ?thesis by simp
qed


text \<open>
  C10: remove-all-duplicates is idempotent. Applied to its own output, the confirmed
  operation leaves the record list as it is and reports 0 records removed; the output
  holds at most one record for each triple.
\<close>

theorem removeAll_idempotent:
  "registros (handleRemoveAllDuplicates True (handleRemoveAllDuplicates True st))
     = registros (handleRemoveAllDuplicates True st)
   \<and> message (handleRemoveAllDuplicates True (handleRemoveAllDuplicates True st))
     = Some (success, LimpiezaMasiva 0)
   \<and> distinct (map triple (registros (handleRemoveAllDuplicates True st)))"
proof -
  let ?ks = "fst (filterDuplicates {} 0 (registros st))"
  have d: "distinct (map dupKey ?ks)"
    using filterDuplicates_keys [of "{}" 0 "registros st"] by simp
  then have f: "filterDuplicates {} 0 ?ks = (?ks, 0)"
    by (intro filterDuplicates_distinct_id) simp_all
  have "registros (handleRemoveAllDuplicates True (handleRemoveAllDuplicates True st)) = ?ks"
    unfolding handleRemoveAllDuplicates_registros f by simp
  moreover have "message (handleRemoveAllDuplicates True (handleRemoveAllDuplicates True st))
     = Some (success, LimpiezaMasiva 0)"
    unfolding handleRemoveAllDuplicates_message handleRemoveAllDuplicates_registros f by simp
  moreover have "distinct (map triple ?ks)"
    using d by (rule distinct_triple_of_keys)
  ultimately show ?thesis
    unfolding handleRemoveAllDuplicates_registros by simp
qed

section \<open>Facts and claims about the roster branch\<close>

lemma mergeUsuario_lookup:
  "map_of (mergeUsuario i sx fn nm um) k =
     (if k = i
      then Some \<lparr>id_u = i,
                 sexo = or_str sx (case map_of um i of None \<Rightarrow> '''' | Some u \<Rightarrow> sexo u),
                 fnac = or_str fn (case map_of um i of None \<Rightarrow> '''' | Some u \<Rightarrow> fnac u),
                 nombre_u = or_str nm (case map_of um i of None \<Rightarrow> '''' | Some u \<Rightarrow> nombre_u u)\<rparr>
      else map_of um k)"
  by (simp add: mergeUsuario_def Let_def update_conv' split: option.splits)

lemma procesarUsuarios_lookup:
  assumes "normalizeId (Some (idCandDe parts)) = i" "3 \<le> length i"
  shows "map_of (procesarUsuarios parts um) k =
     (if k = i
      then Some \<lparr>id_u = i,
                 sexo = or_str (sexoDe parts) (case map_of um i of None \<Rightarrow> '''' | Some u \<Rightarrow> sexo u),
                 fnac = or_str (fnacDe parts) (case map_of um i of None \<Rightarrow> '''' | Some u \<Rightarrow> fnac u),
                 nombre_u = or_str (nombreDe parts)
                              (case map_of um i of None \<Rightarrow> '''' | Some u \<Rightarrow> nombre_u u)\<rparr>
      else map_of um k)"
proof -
  from assms have "i \<noteq> ''''" by auto
  with assms show ?thesis
    by (simp add: procesarUsuarios_def Let_def mergeUsuario_lookup)
qed

text \<open>
  C6: the roster merge replaces a field only by a non-empty value. A line of the roster
  section that is no header and splits into the fields \<open>parts\<close> sets the patient map to
  \<open>procesarUsuarios parts\<close> of it. When the normalised identifier \<open>i\<close> of the line (three
  characters or more) is present in the map with the record \<open>prev\<close>, each of sex, birth date
  and name of the new record for \<open>i\<close> is the value extracted from the line if that is
  non-empty, and the value of \<open>prev\<close> otherwise. Hence, of two lines for the same identifier
  where the second has no sex but a name, the record after both has the sex it had after
  the first line (which is the first line's sex when that line has one) and the second
  line's name.
\<close>

theorem roster_merge_per_field:
  "(sectionName st = ''USUARIOS'' \<and> trim raw \<noteq> '''' \<and> \<not> isUsuariosHeader (toUpperCase (trim raw))
      \<and> \<not> isServiciosHeader (toUpperCase (trim raw)) \<and> splitParts (trim raw) = Some parts
      \<and> 2 \<le> length parts \<longrightarrow>
      processLine cupsMap st raw = st\<lparr>newUsuariosMap := procesarUsuarios parts (newUsuariosMap st)\<rparr>)
   \<and> (\<forall>i prev. normalizeId (Some (idCandDe parts)) = i \<and> 3 \<le> length i \<and> map_of um i = Some prev \<longrightarrow>
      map_of (procesarUsuarios parts um) i =
        Some \<lparr>id_u = i,
              sexo = (if sexoDe parts \<noteq> '''' then sexoDe parts else sexo prev),
              fnac = (if fnacDe parts \<noteq> '''' then fnacDe parts else fnac prev),
              nombre_u = (if nombreDe parts \<noteq> '''' then nombreDe parts else nombre_u prev)\<rparr>)
   \<and> (\<forall>i. normalizeId (Some (idCandDe parts1)) = i \<and> normalizeId (Some (idCandDe parts2)) = i
          \<and> 3 \<le> length i \<and> sexoDe parts2 = '''' \<and> nombreDe parts2 \<noteq> '''' \<longrightarrow>
        (\<exists>u1 u2. map_of (procesarUsuarios parts1 um) i = Some u1
            \<and> map_of (procesarUsuarios parts2 (procesarUsuarios parts1 um)) i = Some u2
            \<and> (sexoDe parts1 \<noteq> '''' \<longrightarrow> sexo u1 = sexoDe parts1)
            \<and> sexo u2 = sexo u1
            \<and> nombre_u u2 = nombreDe parts2))"
proof -
  have "processLine cupsMap st raw = st\<lparr>newUsuariosMap := procesarUsuarios parts (newUsuariosMap st)\<rparr>"
    if "sectionName st = ''USUARIOS''" "trim raw \<noteq> ''''" "\<not> isUsuariosHeader (toUpperCase (trim raw))"
      "\<not> isServiciosHeader (toUpperCase (trim raw))" "splitParts (trim raw) = Some parts"
      "2 \<le> length parts"
  proof -
    have "includes_str ''USUARIOS'' ''USUARIOS''"
      by (simp add: startsWith_def)
    with that show ?thesis
      by (simp add: processLine_def Let_def)
  qed
  then show ?thesis
    by (auto simp: procesarUsuarios_lookup or_str_def)
qed

text \<open>Two lines of a roster file for the patient 12345678: the second has no sex and
  another name.\<close>

theorem roster_merge_per_field_witness:
  "newUsuariosMap
     (foldl (processLine []) \<lparr>sectionName = ''USUARIOS'', newRegistros = [], newUsuariosMap = []\<rparr>
        [''CC|12345678|PEREZ JUAN|M|2000-01-01'', ''CC|12345678|PEREZ GOMEZ JUAN''])
   = [(''12345678'', \<lparr>id_u = ''12345678'', sexo = ''M'', fnac = ''2000-01-01'',
                       nombre_u = ''PEREZ GOMEZ JUAN''\<rparr>)]
   \<and> sexoDe [''CC'', ''12345678'', ''PEREZ GOMEZ JUAN''] = ''''
   \<and> nombreDe [''CC'', ''12345678'', ''PEREZ GOMEZ JUAN''] = ''PEREZ GOMEZ JUAN''"
proof -
  let ?p1 = "[''CC'', ''12345678'', ''PEREZ JUAN'', ''M'', ''2000-01-01'']"
  let ?p2 = "[''CC'', ''12345678'', ''PEREZ GOMEZ JUAN'']"
  have i1: "normalizeId (Some (idCandDe ?p1)) = ''12345678''"
    and i2: "normalizeId (Some (idCandDe ?p2)) = ''12345678''"
    and s1: "sexoDe ?p1 = ''M''"
    and s2: "sexoDe ?p2 = ''''"
    and n2: "nombreDe ?p2 = ''PEREZ GOMEZ JUAN''"
    by code_simp+
  note t = roster_merge_per_field [where ?parts1.0 = ?p1 and um = "[]" and ?parts2.0 = ?p2,
      THEN conjunct2, THEN conjunct2, rule_format, of "''12345678''"]
  have "\<exists>u1 u2. map_of (procesarUsuarios ?p1 []) ''12345678'' = Some u1
      \<and> map_of (procesarUsuarios ?p2 (procesarUsuarios ?p1 [])) ''12345678'' = Some u2
      \<and> (sexoDe ?p1 \<noteq> '''' \<longrightarrow> sexo u1 = sexoDe ?p1)
      \<and> sexo u2 = sexo u1
      \<and> nombre_u u2 = nombreDe ?p2"
    by (rule t) (simp add: i1 i2 s2 n2)
  then have "\<exists>u. map_of (procesarUsuarios ?p2 (procesarUsuarios ?p1 [])) ''12345678'' = Some u
      \<and> sexo u = ''M'' \<and> nombre_u u = ''PEREZ GOMEZ JUAN''"
    by (auto simp: s1 n2)
  moreover have "newUsuariosMap
     (foldl (processLine []) \<lparr>sectionName = ''USUARIOS'', newRegistros = [], newUsuariosMap = []\<rparr>
        [''CC|12345678|PEREZ JUAN|M|2000-01-01'', ''CC|12345678|PEREZ GOMEZ JUAN''])
   = [(''12345678'', \<lparr>id_u = ''12345678'', sexo = ''M'', fnac = ''2000-01-01'',
                       nombre_u = ''PEREZ GOMEZ JUAN''\<rparr>)]"
    by code_simp
  ultimately show ?thesis using s2 n2 by simp
qed

section \<open>Facts and claims about the line classifier\<close>

lemma trim_ends: "\<not> is_space a \<Longrightarrow> \<not> is_space b \<Longrightarrow> trim (a # s @ [b]) = a # s @ [b]"
  by (simp add: trim_def)

lemma rxSec_at_marker:
  assumes ne: "name \<noteq> []" and cl: "list_all rxSec_class name"
  shows "rxSec_at prev (CHR 0xB0 # ''----ARCHIVO-'' @ name @ ''----'' @ [CHR 0xB0] @ ''|'') = Some name"
proof -
  define a where "a = ''ARCHIVO-''"
  define e where "e = ''----'' @ [CHR 0xB0] @ ''|''"
  have L: "CHR 0xB0 # ''----ARCHIVO-'' @ name @ ''----'' @ [CHR 0xB0] @ ''|''
      = CHR 0xB0 # ''----'' @ a @ name @ e"
    by (simp add: a_def e_def)
  have "\<not> is_space CHR ''A''"
    by (simp add: is_space_def cu_def)
  then have dwa: "dropWhile is_space (a @ r) = a @ r" for r
    by (simp add: a_def)
  have ta: "take 8 (a @ r) = a" and da: "drop 8 (a @ r) = r" for r
    by (simp_all add: a_def)
  have up: "map upper_char a = ''ARCHIVO-''"
    unfolding a_def by code_simp
  have "\<not> rxSec_class CHR ''-''"
    by code_simp
  then have "takeWhile rxSec_class e = []"
    by (simp add: e_def)
  moreover have "takeWhile rxSec_class (name @ e) = name @ takeWhile rxSec_class e"
    using cl by (intro takeWhile_append2) (simp add: list_all_iff)
  ultimately have tw: "takeWhile rxSec_class (name @ e) = name"
    by simp
  have "\<not> is_space CHR ''-''"
    by (simp add: is_space_def cu_def)
  then have dwe: "dropWhile is_space e = e"
    by (simp add: e_def)
  have se: "startsWith e (''----'' @ [CHR 0xB0] @ ''|'')"
    by (simp add: startsWith_def e_def)
  have s: "startsWith (CHR 0xB0 # ''----'' @ a @ name @ e) (CHR 0xB0 # ''----'')"
    by (simp add: startsWith_def)
  have d5: "drop 5 (CHR 0xB0 # ''----'' @ a @ name @ e) = a @ name @ e"
    by simp
  show ?thesis
    unfolding L rxSec_at_def Let_def if_P [OF s] d5 dwa ta da up tw
    using ne se by (simp add: dwe)
qed

text \<open>
  C5, as stated: the line classifier supports both ways of switching the section. Neither
  loop does. The current ingestion has no explicit marker: the marker line for \<open>AF\<close> leaves
  the section \<open>USUARIOS\<close> as it is. The loop of \<open>src/App.tsx\<close> knows the marker only: the
  header line \<open>*** USUARIOS ***\<close> leaves the section \<open>SERVICIOS\<close> as it is.
\<close>

theorem section_switching_not_both:
  "sectionName (processLine []
      \<lparr>sectionName = ''USUARIOS'', newRegistros = [], newUsuariosMap = []\<rparr>
      (CHR 0xB0 # ''----ARCHIVO-AF----'' @ [CHR 0xB0] @ ''|'')) = ''USUARIOS''
   \<and> sectionName (processLine_App []
      \<lparr>sectionName = ''SERVICIOS'', newRegistros = [], newUsuariosMap = []\<rparr>
      ''*** USUARIOS ***'') = ''SERVICIOS''"
  by code_simp

text \<open>
  C5, amended: each mechanism is supported by one of the two loops. In the current
  ingestion, a non-empty trimmed line whose upper-cased text contains \<open>USUARIOS\<close> and one of
  \<open>*\<close>, the degree sign and \<open>-\<close> sets the section to \<open>USUARIOS\<close> and changes nothing else. In
  the loop of \<open>src/App.tsx\<close>, a line in which the marker pattern matches with the group
  \<open>name\<close> sets the section to \<open>name\<close>, trimmed and upper-cased, and changes nothing else; in
  particular the line made of the degree sign, \<open>----ARCHIVO-\<close>, a non-empty \<open>name\<close> of
  characters of the group's class, \<open>----\<close>, the degree sign and \<open>|\<close> does so.
\<close>

theorem section_switching:
  "(trim raw \<noteq> '''' \<and> isUsuariosHeader (toUpperCase (trim raw)) \<longrightarrow>
      processLine cupsMap st raw = st\<lparr>sectionName := ''USUARIOS''\<rparr>)
   \<and> (\<forall>name. find_match rxSec_at None (trim raw) = Some name \<longrightarrow>
      processLine_App cupsMap st raw = st\<lparr>sectionName := toUpperCase (trim name)\<rparr>)
   \<and> (\<forall>name. name \<noteq> [] \<and> list_all rxSec_class name \<longrightarrow>
      processLine_App cupsMap st (CHR 0xB0 # ''----ARCHIVO-'' @ name @ ''----'' @ [CHR 0xB0] @ ''|'')
        = st\<lparr>sectionName := toUpperCase (trim name)\<rparr>)"
proof -
  have a: "processLine cupsMap st raw = st\<lparr>sectionName := ''USUARIOS''\<rparr>"
    if "trim raw \<noteq> ''''" "isUsuariosHeader (toUpperCase (trim raw))"
    using that by (simp add: processLine_def)
  have b: "processLine_App cupsMap st r = st\<lparr>sectionName := toUpperCase (trim name)\<rparr>"
    if "find_match rxSec_at None (trim r) = Some name" for name r
  proof -
    have "find_match rxSec_at None [] = None"
      by (simp add: rxSec_at_def startsWith_def)
    with that have "trim r \<noteq> ''''"
      by auto
    with that show ?thesis
      by (simp add: processLine_App_def)
  qed
  have c: "processLine_App cupsMap st (CHR 0xB0 # ''----ARCHIVO-'' @ name @ ''----'' @ [CHR 0xB0] @ ''|'')
        = st\<lparr>sectionName := toUpperCase (trim name)\<rparr>"
    if "name \<noteq> []" "list_all rxSec_class name" for name
  proof -
    let ?L = "CHR 0xB0 # ''----ARCHIVO-'' @ name @ ''----'' @ [CHR 0xB0] @ ''|''"
    have "\<not> is_space (CHR 0xB0)" "\<not> is_space CHR ''|''"
      by (simp_all add: is_space_def cu_def)
    then have "trim (CHR 0xB0 # (''----ARCHIVO-'' @ name @ ''----'' @ [CHR 0xB0]) @ ''|'') =
        CHR 0xB0 # (''----ARCHIVO-'' @ name @ ''----'' @ [CHR 0xB0]) @ ''|''"
      by (rule trim_ends)
    then have t: "trim ?L = ?L"
      by simp
    from rxSec_at_marker [OF that] have "find_match rxSec_at None ?L = Some name"
      by simp
    with t show ?thesis
      by (intro b) simp
  qed
  from a b c show ?thesis by blast
qed

theorem section_switching_witness:
  "processLine [] \<lparr>sectionName = ''SERVICIOS'', newRegistros = [], newUsuariosMap = []\<rparr>
      ''*** usuarios ***''
     = \<lparr>sectionName = ''USUARIOS'', newRegistros = [], newUsuariosMap = []\<rparr>
   \<and> processLine_App [] \<lparr>sectionName = '''', newRegistros = [], newUsuariosMap = []\<rparr>
      (CHR 0xB0 # ''----ARCHIVO- us_af ----'' @ [CHR 0xB0] @ ''|'')
     = \<lparr>sectionName = ''US_AF'', newRegistros = [], newUsuariosMap = []\<rparr>"
proof -
  let ?s = "\<lparr>sectionName = ''SERVICIOS'', newRegistros = [], newUsuariosMap = []\<rparr>"
  let ?e = "\<lparr>sectionName = '''', newRegistros = [], newUsuariosMap = []\<rparr>"
  have h1: "trim ''*** usuarios ***'' \<noteq> '''' \<and> isUsuariosHeader (toUpperCase (trim ''*** usuarios ***''))"
    by code_simp
  have h2: "'' us_af '' \<noteq> [] \<and> list_all rxSec_class '' us_af ''"
    by code_simp
  have u: "toUpperCase (trim '' us_af '') = ''US_AF''"
    by code_simp
  note t = section_switching [of "''*** usuarios ***''" "[]" ?s]
  from t h1 have a: "processLine [] ?s ''*** usuarios ***'' = ?s\<lparr>sectionName := ''USUARIOS''\<rparr>"
    by blast
  note t' = section_switching [of "''''" "[]" ?e, THEN conjunct2, THEN conjunct2, rule_format,
      of "'' us_af ''"]
  from t' h2 u
  have b: "processLine_App [] ?e (CHR 0xB0 # ''----ARCHIVO-'' @ '' us_af '' @ ''----'' @ [CHR 0xB0] @ ''|'')
      = ?e\<lparr>sectionName := ''US_AF''\<rparr>"
    by simp
  from a b show ?thesis by simp
qed






section \<open>Facts and claims about a failing batch\<close>

lemma processRips_None:
  "processRips cupsMap fs ls = None \<longleftrightarrow> list_ex (\<lambda>f. file_text f = None) fs"
  by (induction fs arbitrary: ls) (auto split: option.splits)

text \<open>
  C2, as stated: a batch that fails leaves the record list, the patient map and the
  catalogue map as they were. The catalogue map is set right after the catalogue is read,
  before the RIPS files are: when the text of a RIPS file cannot be read, the batch ends
  with the failure message and the new catalogue in place of the old (here empty) one.
\<close>

theorem failed_batch_changes_maestro:
  "maestro (processFiles (Some [\<lparr>file_name = ''AC0001.txt'', file_text = None\<rparr>])
      (Some (Some [\<lparr>cups_vigente = ''890201'', tipo_ser = ''CONSULTA'',
                    nombre_cups = ''CONSULTA GENERAL''\<rparr>]))
      \<lparr>registros = [], usuariosMap = [], maestro = [], isProcessing = False, message = None,
       showDuplicates = False\<rparr>)
     = [(''890201'', \<lparr>cups_m = ''890201'', tipo_m = ''CONSULTA'', nombre_m = ''CONSULTA GENERAL''\<rparr>)]
   \<and> message (processFiles (Some [\<lparr>file_name = ''AC0001.txt'', file_text = None\<rparr>])
      (Some (Some [\<lparr>cups_vigente = ''890201'', tipo_ser = ''CONSULTA'',
                    nombre_cups = ''CONSULTA GENERAL''\<rparr>]))
      \<lparr>registros = [], usuariosMap = [], maestro = [], isProcessing = False, message = None,
       showDuplicates = False\<rparr>)
     = Some (error, ErrorFormato)"
  by code_simp

text \<open>
  C2, amended: the record list and the patient map are committed at the end of a batch
  only. When both arguments are given and reading the catalogue or the text of some RIPS
  file throws, the batch ends with the record list and the patient map it started with,
  the message \<open>Error en formato de archivos.\<close> and \<open>isProcessing\<close> reset. The catalogue map is
  committed as soon as the catalogue is read: it is unchanged when reading the catalogue
  throws, and it is the new catalogue when a RIPS file throws later.
\<close>

theorem failed_batch_keeps_records_and_roster:
  "ripsFiles = Some (f # fs) \<and> cupsFile = Some cupsRead
     \<and> (cupsRead = None \<or> list_ex (\<lambda>g. file_text g = None) (f # fs)) \<longrightarrow>
   registros (processFiles ripsFiles cupsFile st) = registros st
   \<and> usuariosMap (processFiles ripsFiles cupsFile st) = usuariosMap st
   \<and> message (processFiles ripsFiles cupsFile st) = Some (error, ErrorFormato)
   \<and> isProcessing (processFiles ripsFiles cupsFile st) = False
   \<and> (cupsRead = None \<longrightarrow> maestro (processFiles ripsFiles cupsFile st) = maestro st)
   \<and> (\<forall>rows. cupsRead = Some rows \<longrightarrow>
         maestro (processFiles ripsFiles cupsFile st) = loadMaestro rows)"
proof (cases cupsRead)
  case None
  then show ?thesis
    by (simp add: processFiles_def)
next
  case (Some rows)
  show ?thesis
  proof (intro impI)
    assume a: "ripsFiles = Some (f # fs) \<and> cupsFile = Some cupsRead
      \<and> (cupsRead = None \<or> list_ex (\<lambda>g. file_text g = None) (f # fs))"
    with Some have "list_ex (\<lambda>g. file_text g = None) (f # fs)"
      by simp
    then have "processRips (loadMaestro rows) (f # fs)
        \<lparr>sectionName = '''', newRegistros = [], newUsuariosMap = usuariosMap st\<rparr> = None"
      by (simp only: processRips_None)
    with a Some show "registros (processFiles ripsFiles cupsFile st) = registros st
      \<and> usuariosMap (processFiles ripsFiles cupsFile st) = usuariosMap st
      \<and> message (processFiles ripsFiles cupsFile st) = Some (error, ErrorFormato)
      \<and> isProcessing (processFiles ripsFiles cupsFile st) = False
      \<and> (cupsRead = None \<longrightarrow> maestro (processFiles ripsFiles cupsFile st) = maestro st)
      \<and> (\<forall>rows. cupsRead = Some rows \<longrightarrow>
            maestro (processFiles ripsFiles cupsFile st) = loadMaestro rows)"
      by (simp add: processFiles_def Let_def del: processRips.simps)
  qed
qed

text \<open>A batch of two files over a state with one record and one patient: the first file
  is read and holds a service line, the second cannot be read.\<close>

theorem failed_batch_keeps_records_and_roster_witness:
  "registros (processFiles
      (Some [\<lparr>file_name = ''AC0001.txt'', file_text = Some ''12345678|890201|2024-01-05''\<rparr>,
             \<lparr>file_name = ''US0001.txt'', file_text = None\<rparr>])
      (Some (Some [\<lparr>cups_vigente = ''890201'', tipo_ser = ''CONSULTA'',
                    nombre_cups = ''CONSULTA GENERAL''\<rparr>]))
      \<lparr>registros = [\<lparr>cups = ''890201'', paciente = ''777'', tipo = ''CONSULTA'',
                     nombre = ''CONSULTA GENERAL'', fecha = ''''\<rparr>],
       usuariosMap = [(''777'', \<lparr>id_u = ''777'', sexo = ''F'', fnac = '''', nombre_u = ''ANA''\<rparr>)],
       maestro = [], isProcessing = False, message = None, showDuplicates = False\<rparr>)
   = [\<lparr>cups = ''890201'', paciente = ''777'', tipo = ''CONSULTA'',
       nombre = ''CONSULTA GENERAL'', fecha = ''''\<rparr>]"
proof -
  let ?fs = "[\<lparr>file_name = ''US0001.txt'', file_text = None\<rparr>]"
  let ?f = "\<lparr>file_name = ''AC0001.txt'', file_text = Some ''12345678|890201|2024-01-05''\<rparr>"
  let ?rows = "[\<lparr>cups_vigente = ''890201'', tipo_ser = ''CONSULTA'',
                    nombre_cups = ''CONSULTA GENERAL''\<rparr>]"
  let ?st = "\<lparr>registros = [\<lparr>cups = ''890201'', paciente = ''777'', tipo = ''CONSULTA'',
                     nombre = ''CONSULTA GENERAL'', fecha = ''''\<rparr>],
       usuariosMap = [(''777'', \<lparr>id_u = ''777'', sexo = ''F'', fnac = '''', nombre_u = ''ANA''\<rparr>)],
       maestro = [], isProcessing = False, message = None, showDuplicates = False\<rparr>"
  have h: "Some (?f # ?fs) = Some (?f # ?fs) \<and> Some (Some ?rows) = Some (Some ?rows)
      \<and> (Some ?rows = None \<or> list_ex (\<lambda>g. file_text g = None) (?f # ?fs))"
    by simp
  from failed_batch_keeps_records_and_roster
    [of "Some (?f # ?fs)" ?f ?fs "Some (Some ?rows)" "Some ?rows" ?st] h
  have "registros (processFiles (Some (?f # ?fs)) (Some (Some ?rows)) ?st) = registros ?st"
    by blast
  then show ?thesis by simp
qed

section \<open>Facts and claims about the code ranking\<close>

lemma firstSeen_snoc:
  "firstSeen (xs @ [x]) = (if x \<in> set xs then firstSeen xs else firstSeen xs @ [x])"
  by (simp add: firstSeen_def)

lemma set_firstSeen: "set (firstSeen xs) = set xs"
  by (simp add: firstSeen_def)

lemma distinct_firstSeen: "distinct (firstSeen xs)"
  by (simp add: firstSeen_def)

lemma ownTrack_Nil: "ownTrack [] = \<lparr>cupsCount = [], cupsPacCount = [], cupsPacDates = []\<rparr>"
  by (simp add: ownTrack_def)

lemma ownTrack_snoc: "ownTrack (rs @ [r]) = trackStep (ownTrack rs) r"
  by (simp add: ownTrack_def)

lemma cupsCount_step:
  "cupsCount (trackStep t r) =
     AList.update (cups r)
       ((case map_of (cupsCount t) (cups r) of
           None \<Rightarrow> \<lparr>count_c = 0, name_c = nombre r, type_c = tipo r\<rparr>
         | Some i \<Rightarrow> i)\<lparr>count_c := count_c (case map_of (cupsCount t) (cups r) of
           None \<Rightarrow> \<lparr>count_c = 0, name_c = nombre r, type_c = tipo r\<rparr>
         | Some i \<Rightarrow> i) + 1\<rparr>) (cupsCount t)"
  by (simp add: trackStep_def Let_def)

lemma pacsOf_step:
  "pacsOf (trackStep t r) c =
     (if cups r = c
      then AList.update (paciente r)
             ((case map_of (pacsOf t c) (paciente r) of None \<Rightarrow> 0 | Some n \<Rightarrow> n) + 1) (pacsOf t c)
      else pacsOf t c)"
  by (simp add: pacsOf_def trackStep_def Let_def update_conv')

lemma cupsCount_keys: "map fst (cupsCount (ownTrack rs)) = firstSeen (map cups rs)"
proof (induction rs rule: rev_induct)
  case Nil
  show ?case by (simp add: firstSeen_def ownTrack_Nil)
next
  case (snoc r rs)
  then show ?case
    by (simp add: ownTrack_snoc cupsCount_step update_keys firstSeen_snoc set_firstSeen)
qed

lemma cupsCount_count:
  "map_option count_c (map_of (cupsCount (ownTrack rs)) c) =
     (if c \<in> cups ` set rs then Some (length (filter (\<lambda>r. cups r = c) rs)) else None)"
proof (induction rs rule: rev_induct)
  case Nil
  show ?case by (simp add: ownTrack_Nil)
next
  case (snoc r rs)
  show ?case
  proof (cases "cups r = c")
    case True
    show ?thesis
    proof (cases "map_of (cupsCount (ownTrack rs)) c")
      case None
      with snoc.IH have "c \<notin> cups ` set rs"
        by (auto split: if_splits)
      then have "filter (\<lambda>r. cups r = c) rs = []"
        by (auto simp: filter_empty_conv)
      with True None show ?thesis
        by (simp add: ownTrack_snoc cupsCount_step update_conv')
    next
      case (Some i)
      with snoc.IH have "count_c i = length (filter (\<lambda>r. cups r = c) rs)"
        by (auto split: if_splits)
      with True Some show ?thesis
        by (simp add: ownTrack_snoc cupsCount_step update_conv')
    qed
  next
    case False
    with snoc.IH show ?thesis
      by (auto simp: ownTrack_snoc cupsCount_step update_conv')
  qed
qed

lemma pacsOf_keys:
  "map fst (pacsOf (ownTrack rs) c) = firstSeen (map paciente (filter (\<lambda>r. cups r = c) rs))"
proof (induction rs rule: rev_induct)
  case Nil
  show ?case by (simp add: firstSeen_def pacsOf_def ownTrack_Nil)
next
  case (snoc r rs)
  then show ?case
    by (simp add: ownTrack_snoc pacsOf_step update_keys firstSeen_snoc set_firstSeen)
qed

lemma pacsOf_count:
  "map_of (pacsOf (ownTrack rs) c) p =
     (if p \<in> paciente ` set (filter (\<lambda>r. cups r = c) rs)
      then Some (length (filter (\<lambda>r. cups r = c \<and> paciente r = p) rs)) else None)"
proof (induction rs rule: rev_induct)
  case Nil
  show ?case by (simp add: pacsOf_def ownTrack_Nil)
next
  case (snoc r rs)
  show ?case
  proof (cases "cups r = c \<and> paciente r = p")
    case True
    show ?thesis
    proof (cases "map_of (pacsOf (ownTrack rs) c) p")
      case None
      with snoc.IH have "p \<notin> paciente ` set (filter (\<lambda>r. cups r = c) rs)"
        by (auto split: if_splits)
      then have "filter (\<lambda>r. cups r = c \<and> paciente r = p) rs = []"
        by (auto simp: filter_empty_conv)
      with True None show ?thesis
        by (simp add: ownTrack_snoc pacsOf_step update_conv')
    next
      case (Some n)
      with snoc.IH have "n = length (filter (\<lambda>r. cups r = c \<and> paciente r = p) rs)"
        by (auto split: if_splits)
      with True Some show ?thesis
        by (simp add: ownTrack_snoc pacsOf_step update_conv')
    qed
  next
    case False
    with snoc.IH show ?thesis
      by (auto simp: ownTrack_snoc pacsOf_step update_conv')
  qed
qed


lemma map_insort_key:
  "map f (insort_key (\<lambda>x. g (f x)) a ys) = insort_key g (f a) (map f ys)"
  by (induction ys) simp_all

lemma map_sort_key: "map f (sort_key (\<lambda>x. g (f x)) xs) = sort_key g (map f xs)"
  by (induction xs) (simp_all add: map_insort_key)

lemma objectEntries_keys: "map fst (objectEntries obj) = ownKeysOrder (map fst obj)"
  by (simp add: objectEntries_def ownKeysOrder_def map_sort_key filter_map comp_def)

lemma set_objectEntries: "set (objectEntries obj) = set obj"
  by (auto simp: objectEntries_def)

lemma set_ownKeysOrder: "set (ownKeysOrder ks) = set ks"
  by (auto simp: ownKeysOrder_def)

lemma find_filter_Cons: "filter P xs = y # ys \<Longrightarrow> List.find P xs = Some y"
  by (induction xs) (auto split: if_splits)

text \<open>The head of a stable sort is the first element of least key.\<close>

lemma sort_key_head:
  assumes "sort_key f xs = y # ys"
  shows "List.find (\<lambda>x. f x = f y) xs = Some y \<and> (\<forall>x\<in>set xs. f y \<le> f x)"
proof -
  have "sorted (map f (sort_key f xs))"
    by (rule sorted_sort_key)
  with assms have "\<forall>x\<in>set ys. f y \<le> f x"
    by simp
  moreover have "set xs = set (y # ys)"
    using assms set_sort [of f xs] by simp
  ultimately have le: "\<forall>x\<in>set xs. f y \<le> f x"
    by auto
  have "filter (\<lambda>x. f x = f y) (sort_key f xs) = filter (\<lambda>x. f x = f y) xs"
    by (rule sort_key_stable)
  with assms have "filter (\<lambda>x. f x = f y) xs = y # filter (\<lambda>x. f x = f y) ys"
    by simp
  then have "List.find (\<lambda>x. f x = f y) xs = Some y"
    by (rule find_filter_Cons)
  with le show ?thesis by simp
qed

lemma find_map_fst:
  "List.find (\<lambda>e. P (fst e)) es = Some e \<Longrightarrow> List.find P (map fst es) = Some (fst e)"
  by (induction es) (auto split: if_splits)


lemma map_of_entry: "distinct (map fst al) \<Longrightarrow> e \<in> set al \<Longrightarrow> map_of al (fst e) = Some (snd e)"
  by (cases e) simp

lemma cupsCount_entry:
  assumes "e \<in> set (cupsCount (ownTrack rs))"
  shows "count_c (snd e) = length (filter (\<lambda>r. cups r = fst e) rs) \<and> fst e \<in> cups ` set rs"
proof -
  have "distinct (map fst (cupsCount (ownTrack rs)))"
    by (simp only: cupsCount_keys distinct_firstSeen)
  from map_of_entry [OF this assms] cupsCount_count [of rs "fst e"] show ?thesis
    by (auto split: if_splits)
qed

lemma pacsOf_entry:
  assumes "e \<in> set (pacsOf (ownTrack rs) c)"
  shows "snd e = length (filter (\<lambda>r. cups r = c \<and> paciente r = fst e) rs)"
proof -
  have "distinct (map fst (pacsOf (ownTrack rs) c))"
    by (simp only: pacsOf_keys distinct_firstSeen)
  from map_of_entry [OF this assms] pacsOf_count [of rs c "fst e"] show ?thesis
    by (auto split: if_splits)
qed

lemma sortDesc_sorted: "sorted_wrt (\<lambda>a b. f b \<le> f a) (sortDesc f xs)"
proof -
  have "sorted (map (\<lambda>x. - int (f x)) (sortDesc f xs))"
    unfolding sortDesc_def by (rule sorted_sort_key)
  then show ?thesis
    by (simp add: sorted_map)
qed

lemma sortDesc_stable: "filter (\<lambda>x. f x = k) (sortDesc f xs) = filter (\<lambda>x. f x = k) xs"
proof -
  have "filter (\<lambda>x. - int (f x) = - int k) (sort_key (\<lambda>x. - int (f x)) xs)
      = filter (\<lambda>x. - int (f x) = - int k) xs"
    by (rule sort_key_stable)
  then show ?thesis
    by (simp add: sortDesc_def)
qed

lemma sortDesc_head:
  assumes "sortDesc f xs = y # ys"
  shows "List.find (\<lambda>x. f x = f y) xs = Some y \<and> (\<forall>x\<in>set xs. f x \<le> f y)"
  using sort_key_head [of "\<lambda>x. - int (f x)" xs y ys] assms by (simp add: sortDesc_def)

lemma forEachTrack_own:
  "\<forall>r\<in>set rs. cups r \<notin> set objectPrototypeKeys \<and> paciente r \<notin> set objectPrototypeKeys
    \<Longrightarrow> forEachTrack t rs = Some (foldl trackStep t rs)"
  by (induction rs arbitrary: t) (simp_all add: trackRecord_def)

lemma forEachTrack_None:
  "forEachTrack t rs = None
    \<longleftrightarrow> (\<exists>r\<in>set rs. cups r \<in> set objectPrototypeKeys \<or> paciente r \<in> set objectPrototypeKeys)"
  by (induction rs arbitrary: t) (auto simp: trackRecord_def)

lemma rankingCUPS_None:
  "rankingCUPS metas umap regs = None
    \<longleftrightarrow> (\<exists>r\<in>set (filteredRegistros metas regs).
          cups r \<in> set objectPrototypeKeys \<or> paciente r \<in> set objectPrototypeKeys)"
  using forEachTrack_None [of "\<lparr>cupsCount = [], cupsPacCount = [], cupsPacDates = []\<rparr>" "filteredRegistros metas regs"]
  by (auto simp: rankingCUPS_def split: option.splits)

lemma rankingCUPS_own:
  "\<forall>r\<in>set (filteredRegistros metas regs).
      cups r \<notin> set objectPrototypeKeys \<and> paciente r \<notin> set objectPrototypeKeys
    \<Longrightarrow> rankingCUPS metas umap regs = Some (rankingRows umap (ownTrack (filteredRegistros metas regs)))"
  by (simp add: rankingCUPS_def forEachTrack_own ownTrack_def)

lemma ranking_ties:
  "map CUPS (filter (\<lambda>row. Cantidad row = k) (rankingRows umap (ownTrack rs)))
    = filter (\<lambda>c. length (filter (\<lambda>r. cups r = c) rs) = k) (ownKeysOrder (firstSeen (map cups rs)))"
proof -
  let ?es = "objectEntries (cupsCount (ownTrack rs))"
  let ?N = "\<lambda>c. length (filter (\<lambda>r. cups r = c) rs)"
  have "map CUPS (filter (\<lambda>row. Cantidad row = k) (rankingRows umap (ownTrack rs)))
      = map CUPS (filter (\<lambda>row. Cantidad row = k) (map (rankingRow umap (ownTrack rs)) ?es))"
    by (simp add: rankingRows_def sortDesc_stable)
  also have "\<dots> = map fst (filter (\<lambda>e. count_c (snd e) = k) ?es)"
    by (simp add: filter_map comp_def rankingRow_def Let_def)
  also have "filter (\<lambda>e. count_c (snd e) = k) ?es = filter (\<lambda>e. ?N (fst e) = k) ?es"
    by (intro filter_cong refl) (simp add: set_objectEntries cupsCount_entry)
  also have "map fst (filter (\<lambda>e. ?N (fst e) = k) ?es) = filter (\<lambda>c. ?N c = k) (map fst ?es)"
    by (simp add: filter_map comp_def)
  also have "map fst ?es = ownKeysOrder (firstSeen (map cups rs))"
    by (simp only: objectEntries_keys cupsCount_keys)
  finally show ?thesis .
qed

lemma ranking_top:
  fixes rs umap row
  assumes row: "row \<in> set (rankingRows umap (ownTrack rs))"
  defines "ps \<equiv> ownKeysOrder (firstSeen (map paciente (filter (\<lambda>r. cups r = CUPS row) rs)))"
  defines "n \<equiv> \<lambda>p. length (filter (\<lambda>r. cups r = CUPS row \<and> paciente r = p) rs)"
  shows "List.find (\<lambda>p. n p = PacienteTop_Cant row) ps = Some (PacienteTop row)
    \<and> (\<forall>q\<in>set ps. n q \<le> PacienteTop_Cant row)"
proof -
  from row obtain e where e: "e \<in> set (cupsCount (ownTrack rs))"
    and r: "row = rankingRow umap (ownTrack rs) e"
    by (auto simp: rankingRows_def sortDesc_def set_objectEntries)
  let ?c = "fst e"
  let ?pacs = "pacsOf (ownTrack rs) ?c"
  let ?pes = "objectEntries ?pacs"
  from r have c: "CUPS row = ?c"
    by (simp add: rankingRow_def Let_def)
  have keys: "map fst ?pes = ps"
    by (simp only: objectEntries_keys pacsOf_keys ps_def c)
  from cupsCount_entry [OF e] have "filter (\<lambda>r. cups r = ?c) rs \<noteq> []"
    by (auto simp: filter_empty_conv)
  then have "firstSeen (map paciente (filter (\<lambda>r. cups r = ?c) rs)) \<noteq> []"
    using set_firstSeen [of "map paciente (filter (\<lambda>r. cups r = ?c) rs)"] by auto
  then have "?pacs \<noteq> []"
    using pacsOf_keys [of rs ?c] by auto
  then have "set ?pes \<noteq> {}"
    by (simp add: set_objectEntries)
  then have "set (sortDesc snd ?pes) \<noteq> {}"
    unfolding sortDesc_def set_sort .
  then have "sortDesc snd ?pes \<noteq> []"
    by auto
  then obtain y ys where y: "sortDesc snd ?pes = y # ys"
    by (cases "sortDesc snd ?pes") auto
  with r have top: "PacienteTop row = fst y" "PacienteTop_Cant row = snd y"
    by (simp_all add: rankingRow_def Let_def topPacEntry_def)
  from sortDesc_head [OF y] have f: "List.find (\<lambda>x. snd x = snd y) ?pes = Some y"
    and m: "\<forall>x\<in>set ?pes. snd x \<le> snd y"
    by simp_all
  have sn: "snd x = n (fst x)" if "x \<in> set ?pes" for x
    using that pacsOf_entry [of x rs ?c] by (simp add: set_objectEntries n_def c)
  have "List.find (\<lambda>x. n (fst x) = snd y) ?pes = List.find (\<lambda>x. snd x = snd y) ?pes"
    by (intro find_cong refl) (simp add: sn)
  with f have "List.find (\<lambda>x. n (fst x) = snd y) ?pes = Some y"
    by simp
  then have "List.find (\<lambda>p. n p = snd y) (map fst ?pes) = Some (fst y)"
    by (rule find_map_fst)
  with keys top have a: "List.find (\<lambda>p. n p = PacienteTop_Cant row) ps = Some (PacienteTop row)"
    by simp
  have "n q \<le> PacienteTop_Cant row" if "q \<in> set ps" for q
  proof -
    from that keys obtain x where "x \<in> set ?pes" "fst x = q"
      by (metis (no_types, lifting) imageE list.set_map)
    with m sn [of x] top show ?thesis by auto
  qed
  with a show ?thesis by simp
qed

lemma ownKeysOrder_no_index: "\<forall>k\<in>set ks. \<not> is_array_index k \<Longrightarrow> ownKeysOrder ks = ks"
  by (simp add: ownKeysOrder_def filter_empty_conv filter_id_conv)

lemma ownKeysOrder_all_index: "\<forall>k\<in>set ks. is_array_index k \<Longrightarrow> ownKeysOrder ks = sort_key index_value ks"
  by (simp add: ownKeysOrder_def filter_empty_conv filter_id_conv)


text \<open>
  C3, as stated: rows of equal count appear in the order in which their codes were first
  encountered, and a tie between patients goes to the patient first encountered. The
  counters are objects with numeric-looking keys, which \<open>Object.entries\<close> enumerates in
  ascending numeric order: code 890301 seen before code 890201, each once, is ranked
  after it; patient 20000000 seen before patient 10000000 for one code, each once, is
  not the top patient.
\<close>

theorem ranking_ties_not_first_seen:
  "map_option (map CUPS) (rankingCUPS [\<lparr>type_meta = ''CONSULTA'', monthlyGoal = 10, active = True\<rparr>] []
      [\<lparr>cups = ''890301'', paciente = ''20000000'', tipo = ''CONSULTA'', nombre = ''B'', fecha = ''''\<rparr>,
       \<lparr>cups = ''890201'', paciente = ''10000000'', tipo = ''CONSULTA'', nombre = ''A'', fecha = ''''\<rparr>])
     = Some [''890201'', ''890301'']
   \<and> map_option (map Cantidad) (rankingCUPS [\<lparr>type_meta = ''CONSULTA'', monthlyGoal = 10, active = True\<rparr>] []
      [\<lparr>cups = ''890301'', paciente = ''20000000'', tipo = ''CONSULTA'', nombre = ''B'', fecha = ''''\<rparr>,
       \<lparr>cups = ''890201'', paciente = ''10000000'', tipo = ''CONSULTA'', nombre = ''A'', fecha = ''''\<rparr>])
     = Some [1, 1]
   \<and> firstSeen (map cups (filteredRegistros
      [\<lparr>type_meta = ''CONSULTA'', monthlyGoal = 10, active = True\<rparr>]
      [\<lparr>cups = ''890301'', paciente = ''20000000'', tipo = ''CONSULTA'', nombre = ''B'', fecha = ''''\<rparr>,
       \<lparr>cups = ''890201'', paciente = ''10000000'', tipo = ''CONSULTA'', nombre = ''A'', fecha = ''''\<rparr>]))
     = [''890301'', ''890201'']
   \<and> map_option (map PacienteTop) (rankingCUPS [\<lparr>type_meta = ''CONSULTA'', monthlyGoal = 10, active = True\<rparr>] []
      [\<lparr>cups = ''890301'', paciente = ''20000000'', tipo = ''CONSULTA'', nombre = ''B'', fecha = ''''\<rparr>,
       \<lparr>cups = ''890301'', paciente = ''10000000'', tipo = ''CONSULTA'', nombre = ''B'', fecha = ''''\<rparr>])
     = Some [''10000000'']
   \<and> firstSeen (map paciente (filteredRegistros
      [\<lparr>type_meta = ''CONSULTA'', monthlyGoal = 10, active = True\<rparr>]
      [\<lparr>cups = ''890301'', paciente = ''20000000'', tipo = ''CONSULTA'', nombre = ''B'', fecha = ''''\<rparr>,
       \<lparr>cups = ''890301'', paciente = ''10000000'', tipo = ''CONSULTA'', nombre = ''B'', fecha = ''''\<rparr>]))
     = [''20000000'', ''10000000'']"
  by (simp add: rankingCUPS_def rankingRows_def filteredRegistros_def trackRecord_def trackStep_def
      objectPrototypeKeys_def pacsOf_def objectEntries_def sortDesc_def rankingRow_def
      topPacEntry_def is_array_index_def index_value_def firstSeen_def cu_def is_digit_def Let_def)

text \<open>
  C3, amended. The ranking is computed exactly when no filtered record has a name of
  \<open>Object.prototype\<close> as its code or as its patient; otherwise the computation throws.
  When no filtered record has such a name, the rows of the code ranking are sorted by
  total count descending, and rows of equal count appear in the order in which
  \<open>Object.entries\<close> enumerates the codes: the codes that are canonical array indices
  (decimal digits without leading zero, below \<open>2^32 - 1\<close>) in ascending numeric order, then
  the other codes in the order in which they were first encountered in the filtered
  records. The count of a row is the number of filtered records with its code. The top
  patient of a row is the first patient, in the same enumeration order of the patients
  of that code, whose sub-count is the highest. When no key is an array index the
  enumeration order is the first-encountered order; when all are, it is the ascending
  numeric order.
\<close>

theorem ranking_order:
  "(rankingCUPS metas umap regs = None
      \<longleftrightarrow> (\<exists>r\<in>set (filteredRegistros metas regs).
            cups r \<in> set objectPrototypeKeys \<or> paciente r \<in> set objectPrototypeKeys))
   \<and> ((\<forall>r\<in>set (filteredRegistros metas regs).
          cups r \<notin> set objectPrototypeKeys \<and> paciente r \<notin> set objectPrototypeKeys)
       \<longrightarrow> (\<exists>rk. rankingCUPS metas umap regs = Some rk
            \<and> sorted_wrt (\<lambda>a b. Cantidad b \<le> Cantidad a) rk
            \<and> (\<forall>k. map CUPS (filter (\<lambda>row. Cantidad row = k) rk)
                  = filter (\<lambda>c. length (filter (\<lambda>r. cups r = c) (filteredRegistros metas regs)) = k)
                      (ownKeysOrder (firstSeen (map cups (filteredRegistros metas regs)))))
            \<and> (\<forall>row\<in>set rk.
                  List.find
                    (\<lambda>p. length (filter (\<lambda>r. cups r = CUPS row \<and> paciente r = p)
                                   (filteredRegistros metas regs))
                           = PacienteTop_Cant row)
                    (ownKeysOrder (firstSeen (map paciente
                       (filter (\<lambda>r. cups r = CUPS row) (filteredRegistros metas regs)))))
                  = Some (PacienteTop row)
                  \<and> (\<forall>q\<in>set (ownKeysOrder (firstSeen (map paciente
                         (filter (\<lambda>r. cups r = CUPS row) (filteredRegistros metas regs))))).
                       length (filter (\<lambda>r. cups r = CUPS row \<and> paciente r = q)
                                 (filteredRegistros metas regs))
                         \<le> PacienteTop_Cant row))))
   \<and> (\<forall>ks. (\<forall>k\<in>set ks. \<not> is_array_index k) \<longrightarrow> ownKeysOrder ks = ks)
   \<and> (\<forall>ks. (\<forall>k\<in>set ks. is_array_index k) \<longrightarrow> ownKeysOrder ks = sort_key index_value ks)"
proof (intro conjI impI allI)
  show "rankingCUPS metas umap regs = None
      \<longleftrightarrow> (\<exists>r\<in>set (filteredRegistros metas regs).
            cups r \<in> set objectPrototypeKeys \<or> paciente r \<in> set objectPrototypeKeys)"
    by (rule rankingCUPS_None)
next
  let ?rs = "filteredRegistros metas regs"
  let ?rk = "rankingRows umap (ownTrack ?rs)"
  assume "\<forall>r\<in>set ?rs. cups r \<notin> set objectPrototypeKeys \<and> paciente r \<notin> set objectPrototypeKeys"
  then have "rankingCUPS metas umap regs = Some ?rk"
    by (rule rankingCUPS_own)
  moreover have "sorted_wrt (\<lambda>a b. Cantidad b \<le> Cantidad a) ?rk"
    by (simp add: rankingRows_def sortDesc_sorted)
  moreover note ranking_ties [of _ umap ?rs] ranking_top [of _ umap ?rs]
  ultimately show "\<exists>rk. rankingCUPS metas umap regs = Some rk
            \<and> sorted_wrt (\<lambda>a b. Cantidad b \<le> Cantidad a) rk
            \<and> (\<forall>k. map CUPS (filter (\<lambda>row. Cantidad row = k) rk)
                  = filter (\<lambda>c. length (filter (\<lambda>r. cups r = c) ?rs) = k)
                      (ownKeysOrder (firstSeen (map cups ?rs))))
            \<and> (\<forall>row\<in>set rk.
                  List.find
                    (\<lambda>p. length (filter (\<lambda>r. cups r = CUPS row \<and> paciente r = p) ?rs)
                           = PacienteTop_Cant row)
                    (ownKeysOrder (firstSeen (map paciente (filter (\<lambda>r. cups r = CUPS row) ?rs))))
                  = Some (PacienteTop row)
                  \<and> (\<forall>q\<in>set (ownKeysOrder (firstSeen (map paciente
                         (filter (\<lambda>r. cups r = CUPS row) ?rs)))).
                       length (filter (\<lambda>r. cups r = CUPS row \<and> paciente r = q) ?rs)
                         \<le> PacienteTop_Cant row))"
    by blast
next
  fix ks :: "string list"
  assume "\<forall>k\<in>set ks. \<not> is_array_index k"
  then show "ownKeysOrder ks = ks"
    by (rule ownKeysOrder_no_index)
next
  fix ks :: "string list"
  assume "\<forall>k\<in>set ks. is_array_index k"
  then show "ownKeysOrder ks = sort_key index_value ks"
    by (rule ownKeysOrder_all_index)
qed

theorem ranking_order_witness:
  "map_option (\<lambda>rk. map CUPS (filter (\<lambda>row. Cantidad row = 1) rk))
     (rankingCUPS [\<lparr>type_meta = ''CONSULTA'', monthlyGoal = 10, active = True\<rparr>] []
      [\<lparr>cups = ''012345'', paciente = ''20000000'', tipo = ''CONSULTA'', nombre = ''C'', fecha = ''''\<rparr>,
       \<lparr>cups = ''890301'', paciente = ''20000000'', tipo = ''CONSULTA'', nombre = ''B'', fecha = ''''\<rparr>,
       \<lparr>cups = ''890201'', paciente = ''10000000'', tipo = ''CONSULTA'', nombre = ''A'', fecha = ''''\<rparr>,
       \<lparr>cups = ''constructor'', paciente = ''10000000'', tipo = ''OTRO'', nombre = ''D'', fecha = ''''\<rparr>])
   = Some [''890201'', ''890301'', ''012345'']
   \<and> rankingCUPS [\<lparr>type_meta = ''CONSULTA'', monthlyGoal = 10, active = True\<rparr>] []
      [\<lparr>cups = ''890301'', paciente = ''20000000'', tipo = ''CONSULTA'', nombre = ''B'', fecha = ''''\<rparr>,
       \<lparr>cups = ''890201'', paciente = ''constructor'', tipo = ''CONSULTA'', nombre = ''A'', fecha = ''''\<rparr>]
   = None"
proof -
  let ?m = "[\<lparr>type_meta = ''CONSULTA'', monthlyGoal = 10, active = True\<rparr>]"
  let ?rs = "[\<lparr>cups = ''012345'', paciente = ''20000000'', tipo = ''CONSULTA'', nombre = ''C'', fecha = ''''\<rparr>,
       \<lparr>cups = ''890301'', paciente = ''20000000'', tipo = ''CONSULTA'', nombre = ''B'', fecha = ''''\<rparr>,
       \<lparr>cups = ''890201'', paciente = ''10000000'', tipo = ''CONSULTA'', nombre = ''A'', fecha = ''''\<rparr>,
       \<lparr>cups = ''constructor'', paciente = ''10000000'', tipo = ''OTRO'', nombre = ''D'', fecha = ''''\<rparr>]"
  let ?bad = "[\<lparr>cups = ''890301'', paciente = ''20000000'', tipo = ''CONSULTA'', nombre = ''B'', fecha = ''''\<rparr>,
       \<lparr>cups = ''890201'', paciente = ''constructor'', tipo = ''CONSULTA'', nombre = ''A'', fecha = ''''\<rparr>]"
  have h: "\<forall>r\<in>set (filteredRegistros ?m ?rs).
      cups r \<notin> set objectPrototypeKeys \<and> paciente r \<notin> set objectPrototypeKeys"
    by (simp add: filteredRegistros_def objectPrototypeKeys_def)
  have e: "filter (\<lambda>c. length (filter (\<lambda>r. cups r = c) (filteredRegistros ?m ?rs)) = 1)
             (ownKeysOrder (firstSeen (map cups (filteredRegistros ?m ?rs))))
      = [''890201'', ''890301'', ''012345'']"
    by (simp add: filteredRegistros_def is_array_index_def index_value_def ownKeysOrder_def
        firstSeen_def cu_def is_digit_def)
  from ranking_order [of ?m "[]" ?rs] h
  obtain rk where "rankingCUPS ?m [] ?rs = Some rk"
    and "map CUPS (filter (\<lambda>row. Cantidad row = 1) rk)
      = filter (\<lambda>c. length (filter (\<lambda>r. cups r = c) (filteredRegistros ?m ?rs)) = 1)
             (ownKeysOrder (firstSeen (map cups (filteredRegistros ?m ?rs))))"
    by blast
  with e have a: "map_option (\<lambda>rk. map CUPS (filter (\<lambda>row. Cantidad row = 1) rk))
      (rankingCUPS ?m [] ?rs) = Some [''890201'', ''890301'', ''012345'']"
    by simp
  have "\<exists>r\<in>set (filteredRegistros ?m ?bad).
      cups r \<in> set objectPrototypeKeys \<or> paciente r \<in> set objectPrototypeKeys"
    by (simp add: filteredRegistros_def objectPrototypeKeys_def)
  with ranking_order [of ?m "[]" ?bad] have "rankingCUPS ?m [] ?bad = None"
    by blast
  with a show ?thesis by simp
qed


end
